theory Spec2Isabelle
  imports Main
begin

section \<open>The Date object\<close>

text \<open>
  The program computes with the Date object of its language.  A Date is modelled as a
  time value: the number of milliseconds since 1970-01-01 00:00, read on the local
  calendar (no zone transitions, as in Colombia; unbounded, where the language gives up
  beyond about 275000 years).  The functions below follow the language standard's own
  day-number and time-value operations: Day, TimeWithinDay, DaysInYear, DayFromYear,
  YearFromTime, InLeapYear, MonthFromTime, DateFromTime, WeekDay, MakeDay, MakeDate.
  Numbers are integers throughout.
\<close>

type_synonym Date = int

definition msPerDay :: int where
  "msPerDay = 86400000"

definition Day :: "Date \<Rightarrow> int" where
  "Day t = t div msPerDay"

definition TimeWithinDay :: "Date \<Rightarrow> int" where
  "TimeWithinDay t = t mod msPerDay"

definition DaysInYear :: "int \<Rightarrow> int" where
  "DaysInYear y =
     (if y mod 4 \<noteq> 0 then 365
      else if y mod 100 \<noteq> 0 then 366
      else if y mod 400 \<noteq> 0 then 365
      else 366)"

definition DayFromYear :: "int \<Rightarrow> int" where
  "DayFromYear y =
     365 * (y - 1970) + (y - 1969) div 4 - (y - 1901) div 100 + (y - 1601) div 400"

lemma div_succ:
  fixes a k :: int
  assumes "0 < k"
  shows "(a + 1) div k = a div k + (if (a + 1) mod k = 0 then 1 else 0)"
proof (cases "a mod k = k - 1")
  case True
  have e: "a + 1 = k * (a div k + 1) + 0"
  proof -
    have "a = k * (a div k) + a mod k" by simp
    then have "a + 1 = k * (a div k) + k" using True by linarith
    then show ?thesis by (simp add: algebra_simps)
  qed
  have "(a + 1) div k = a div k + 1"
    using assms by (intro int_div_pos_eq [OF e]) auto
  moreover have "(a + 1) mod k = 0"
    using assms by (intro int_mod_pos_eq [OF e]) auto
  ultimately show ?thesis by simp
next
  case False
  have lt: "a mod k < k" and ge: "0 \<le> a mod k"
    using assms by simp_all
  have e: "a + 1 = k * (a div k) + (a mod k + 1)"
    by simp
  have "(a + 1) div k = a div k"
    using assms False lt ge by (intro int_div_pos_eq [OF e]) auto
  moreover have "(a + 1) mod k = a mod k + 1"
    using assms False lt ge by (intro int_mod_pos_eq [OF e]) auto
  ultimately show ?thesis using ge by simp
qed

lemma mod_4_100: "(y::int) mod 100 = 0 \<Longrightarrow> y mod 4 = 0"
  using mod_mod_cancel [of 4 100 y] by simp
lemma mod_100_400: "(y::int) mod 400 = 0 \<Longrightarrow> y mod 100 = 0"
  using mod_mod_cancel [of 100 400 y] by simp

lemma shift4: "((y::int) - 1968) mod 4 = y mod 4"
  using mod_diff_eq [of y 4 1968] by simp 
lemma shift100: "((y::int) - 1900) mod 100 = y mod 100"
  using mod_diff_eq [of y 100 1900] by simp
lemma shift400: "((y::int) - 1600) mod 400 = y mod 400"
  using mod_diff_eq [of y 400 1600] by simp

lemma DayFromYear_next: "DayFromYear (y + 1) = DayFromYear y + DaysInYear y"
proof -
  define A where "A = (y - 1969) div 4"
  define B where "B = (y - 1901) div 100"
  define C where "C = (y - 1601) div 400"
  have a: "(y - 1968) div 4 = A + (if y mod 4 = 0 then 1 else 0)"
    using div_succ [of 4 "y - 1969"] shift4 [of y] by (simp add: A_def)
  have b: "(y - 1900) div 100 = B + (if y mod 100 = 0 then 1 else 0)"
    using div_succ [of 100 "y - 1901"] shift100 [of y] by (simp add: B_def)
  have c: "(y - 1600) div 400 = C + (if y mod 400 = 0 then 1 else 0)"
    using div_succ [of 400 "y - 1601"] shift400 [of y] by (simp add: C_def)
  have e: "DayFromYear (y + 1) = 365 * (y - 1970) + 365 + (y - 1968) div 4 - (y - 1900) div 100 + (y - 1600) div 400"
    by (simp add: DayFromYear_def)
  have f: "DayFromYear y = 365 * (y - 1970) + A - B + C"
    by (simp add: DayFromYear_def A_def B_def C_def)
  show ?thesis
    unfolding e f a b c DaysInYear_def
    using mod_4_100 [of y] mod_100_400 [of y]
    by (cases "y mod 4 = 0"; cases "y mod 100 = 0"; cases "y mod 400 = 0"; simp)
qed

lemma DaysInYear_cases: "DaysInYear y = 365 \<or> DaysInYear y = 366"
  by (simp add: DaysInYear_def)

lemma DayFromYear_step: "DayFromYear y + 365 \<le> DayFromYear (y + 1)"
  using DaysInYear_cases [of y] by (auto simp: DayFromYear_next)

lemma DayFromYear_bounds:
  "y \<le> y' \<Longrightarrow> DayFromYear y + 365 * (y' - y) \<le> DayFromYear y' \<and> DayFromYear y' \<le> DayFromYear y + 366 * (y' - y)"
proof (induction y' rule: int_ge_induct)
  case base
  then show ?case by simp
next
  case (step i)
  then show ?case
    using DaysInYear_cases [of i] by (auto simp: DayFromYear_next)
qed

lemma DayFromYear_strict_mono: "y < y' \<Longrightarrow> DayFromYear y < DayFromYear y'"
  using DayFromYear_bounds [of y y'] by simp

lemma DayFromYear_1970: "DayFromYear 1970 = 0"
  by (simp add: DayFromYear_def)

text \<open>
  YearFromTime is the largest year whose first day is not after the day of the time
  value.  It is found by walking up from a year that is certainly not too late.
\<close>

function yearSearch :: "int \<Rightarrow> int \<Rightarrow> int" where
  "yearSearch d y = (if DayFromYear (y + 1) \<le> d then yearSearch d (y + 1) else y)"
  by pat_completeness auto
termination
proof (relation "measure (\<lambda>(d, y). nat (d + 1 - DayFromYear (y + 1)))")
  show "wf (measure (\<lambda>(d, y). nat (d + 1 - DayFromYear (y + 1))))" by simp
next
  fix d y :: int
  assume "DayFromYear (y + 1) \<le> d"
  moreover have "DayFromYear (y + 1) + 365 \<le> DayFromYear (y + 1 + 1)"
    by (rule DayFromYear_step)
  ultimately show "((d, y + 1), (d, y)) \<in> measure (\<lambda>(d, y). nat (d + 1 - DayFromYear (y + 1)))"
    by simp
qed

declare yearSearch.simps [simp del]

definition YearFromTime :: "Date \<Rightarrow> int" where
  "YearFromTime t =
     (let d = Day t
      in yearSearch d (1970 + (if 0 \<le> d then d div 366 else d div 365)))"

lemma yearSearch_spec:
  "DayFromYear y \<le> d \<Longrightarrow> DayFromYear (yearSearch d y) \<le> d \<and> d < DayFromYear (yearSearch d y + 1)"
proof (induction d y rule: yearSearch.induct)
  case (1 d y)
  show ?case
  proof (cases "DayFromYear (y + 1) \<le> d")
    case True
    with "1.IH" show ?thesis by (subst (1 2) yearSearch.simps) simp
  next
    case False
    with "1.prems" show ?thesis by (subst (1 2) yearSearch.simps) simp
  qed
qed

lemma year_estimate: "DayFromYear (1970 + (if 0 \<le> d then d div 366 else d div 365)) \<le> d"
proof (cases "0 \<le> d")
  case True
  have "0 \<le> d div 366" using True by simp
  then have "DayFromYear (1970 + d div 366) \<le> 366 * (d div 366)"
    using DayFromYear_bounds [of 1970 "1970 + d div 366"] by (simp add: DayFromYear_1970)
  moreover have "366 * (d div 366) \<le> d"
    using mult_div_mod_eq [of 366 d] pos_mod_sign [of 366 d] by linarith
  ultimately show ?thesis using True by simp
next
  case False
  then have "d div 365 \<le> 0" by (simp add: div_int_pos_iff not_le) 
  then have "DayFromYear (1970 + d div 365) \<le> 365 * (d div 365)"
    using DayFromYear_bounds [of "1970 + d div 365" 1970] by (simp add: DayFromYear_1970)
  moreover have "365 * (d div 365) \<le> d"
    using mult_div_mod_eq [of 365 d] pos_mod_sign [of 365 d] by linarith
  ultimately show ?thesis using False by simp
qed

lemma YearFromTime_bounds:
  "DayFromYear (YearFromTime t) \<le> Day t \<and> Day t < DayFromYear (YearFromTime t + 1)"
  unfolding YearFromTime_def Let_def by (rule yearSearch_spec) (rule year_estimate)

lemma YearFromTime_unique:
  assumes "DayFromYear y \<le> Day t" and "Day t < DayFromYear (y + 1)"
  shows "YearFromTime t = y"
proof (rule ccontr)
  assume ne: "YearFromTime t \<noteq> y"
  note b = YearFromTime_bounds [of t]
  show False
  proof (cases "YearFromTime t < y")
    case True
    then have "DayFromYear (YearFromTime t + 1) \<le> DayFromYear y"
      using DayFromYear_bounds [of "YearFromTime t + 1" y] by simp
    with b assms show False by simp
  next
    case False
    with ne have "y + 1 \<le> YearFromTime t" by simp
    then have "DayFromYear (y + 1) \<le> DayFromYear (YearFromTime t)"
      using DayFromYear_bounds [of "y + 1" "YearFromTime t"] by simp
    with b assms show False by simp
  qed
qed

definition InLeapYear :: "Date \<Rightarrow> int" where
  "InLeapYear t = (if DaysInYear (YearFromTime t) = 366 then 1 else 0)"

definition DayWithinYear :: "Date \<Rightarrow> int" where
  "DayWithinYear t = Day t - DayFromYear (YearFromTime t)"

text \<open>The day within the year on which month \<open>m\<close> (0 to 11) starts; 12 gives the year's end.\<close>

definition monthStart :: "int \<Rightarrow> int \<Rightarrow> int" where
  "monthStart leap m =
     (if m = 0 then 0 else if m = 1 then 31 else if m = 2 then 59 + leap
      else if m = 3 then 90 + leap else if m = 4 then 120 + leap
      else if m = 5 then 151 + leap else if m = 6 then 181 + leap
      else if m = 7 then 212 + leap else if m = 8 then 243 + leap
      else if m = 9 then 273 + leap else if m = 10 then 304 + leap
      else if m = 11 then 334 + leap else 365 + leap)"

definition MonthFromTime :: "Date \<Rightarrow> int" where
  "MonthFromTime t =
     (let d = DayWithinYear t; leap = InLeapYear t
      in if d < 31 then 0
         else if d < 59 + leap then 1
         else if d < 90 + leap then 2
         else if d < 120 + leap then 3
         else if d < 151 + leap then 4
         else if d < 181 + leap then 5
         else if d < 212 + leap then 6
         else if d < 243 + leap then 7
         else if d < 273 + leap then 8
         else if d < 304 + leap then 9
         else if d < 334 + leap then 10
         else 11)"

definition DateFromTime :: "Date \<Rightarrow> int" where
  "DateFromTime t =
     DayWithinYear t - monthStart (InLeapYear t) (MonthFromTime t) + 1"

definition WeekDay :: "Date \<Rightarrow> int" where
  "WeekDay t = (Day t + 4) mod 7"

definition MakeDay :: "int \<Rightarrow> int \<Rightarrow> int \<Rightarrow> int" where
  "MakeDay year month dt =
     (let ym = year + month div 12; mn = month mod 12
      in DayFromYear ym + monthStart (if DaysInYear ym = 366 then 1 else 0) mn + dt - 1)"

definition MakeDate :: "int \<Rightarrow> int \<Rightarrow> Date" where
  "MakeDate day time = day * msPerDay + time"

text \<open>
  \<open>new Date(year, month, day)\<close>: local midnight of the day; a year from 0 to 99 is read
  as 1900 + year, as the language prescribes for this constructor.
\<close>

definition newDate :: "int \<Rightarrow> int \<Rightarrow> int \<Rightarrow> Date" where
  "newDate year month day =
     (let yr = (if 0 \<le> year \<and> year \<le> 99 then 1900 + year else year)
      in MakeDate (MakeDay yr month day) 0)"

definition getFullYear :: "Date \<Rightarrow> int" where
  "getFullYear t = YearFromTime t"

definition getMonth :: "Date \<Rightarrow> int" where
  "getMonth t = MonthFromTime t"

definition getDate :: "Date \<Rightarrow> int" where
  "getDate t = DateFromTime t"

definition getDay :: "Date \<Rightarrow> int" where
  "getDay t = WeekDay t"

text \<open>\<open>date.setDate(dt)\<close> keeps year, month and time of day; the new value is returned.\<close>

definition setDate :: "Date \<Rightarrow> int \<Rightarrow> Date" where
  "setDate t dt = MakeDate (MakeDay (YearFromTime t) (MonthFromTime t) dt) (TimeWithinDay t)"

text \<open>\<open>date.setHours(0, 0, 0, 0)\<close>: local midnight of the same day.\<close>

definition setHours0 :: "Date \<Rightarrow> Date" where
  "setHours0 t = MakeDate (Day t) 0"

subsection \<open>Facts about the Date operations\<close>

lemma DayWithinYear_bounds:
  "0 \<le> DayWithinYear t \<and> DayWithinYear t < 365 + InLeapYear t"
  using YearFromTime_bounds [of t] DaysInYear_cases [of "YearFromTime t"]
  by (auto simp: DayWithinYear_def InLeapYear_def DayFromYear_next)

lemma InLeapYear_cases: "InLeapYear t = 0 \<or> InLeapYear t = 1"
  by (simp add: InLeapYear_def)

lemma MonthFromTime_range: "0 \<le> MonthFromTime t \<and> MonthFromTime t \<le> 11"
  by (simp add: MonthFromTime_def Let_def)

lemma MonthFromTime_bounds:
  "monthStart (InLeapYear t) (MonthFromTime t) \<le> DayWithinYear t \<and>
   DayWithinYear t < monthStart (InLeapYear t) (MonthFromTime t + 1)"
  using DayWithinYear_bounds [of t] InLeapYear_cases [of t]
  by (auto simp: MonthFromTime_def Let_def monthStart_def)

lemma DateFromTime_pos: "1 \<le> DateFromTime t"
  using MonthFromTime_bounds [of t] by (simp add: DateFromTime_def)

lemma MakeDay_decompose:
  "MakeDay (YearFromTime t) (MonthFromTime t) dt = Day t + (dt - DateFromTime t)"
proof -
  have "MonthFromTime t div 12 = 0" "MonthFromTime t mod 12 = MonthFromTime t"
    using MonthFromTime_range [of t] by simp_all
  then show ?thesis
    by (simp add: MakeDay_def Let_def DateFromTime_def DayWithinYear_def InLeapYear_def)
qed

lemma msPerDay_pos: "0 < msPerDay"
  by (simp add: msPerDay_def)

lemma Date_split: "t = Day t * msPerDay + TimeWithinDay t"
  by (simp add: Day_def TimeWithinDay_def)

lemma Day_add_days: "Day (t + k * msPerDay) = Day t + k"
  using msPerDay_pos by (simp add: Day_def)

lemma TimeWithinDay_add_days: "TimeWithinDay (t + k * msPerDay) = TimeWithinDay t"
  by (simp add: TimeWithinDay_def)

lemma setDate_getDate: "setDate t (getDate t + k) = t + k * msPerDay"
proof -
  have "setDate t (getDate t + k) = (Day t + k) * msPerDay + TimeWithinDay t"
    by (simp add: setDate_def getDate_def MakeDate_def MakeDay_decompose)
  also have "\<dots> = t + k * msPerDay"
    using Date_split [of t] by (simp add: algebra_simps)
  finally show ?thesis .
qed

lemma getDay_add_days: "getDay (t + k * msPerDay) = (getDay t + k) mod 7"
  unfolding getDay_def WeekDay_def Day_add_days by (simp add: mod_simps algebra_simps)

lemma getDay_range: "0 \<le> getDay t \<and> getDay t \<le> 6"
  by (simp add: getDay_def WeekDay_def)

lemma Day_MakeDate: "0 \<le> tm \<Longrightarrow> tm < msPerDay \<Longrightarrow> Day (MakeDate d tm) = d"
  by (simp add: Day_def MakeDate_def)

lemma TimeWithinDay_MakeDate: "0 \<le> tm \<Longrightarrow> tm < msPerDay \<Longrightarrow> TimeWithinDay (MakeDate d tm) = tm"
  by (simp add: TimeWithinDay_def MakeDate_def)


section \<open>The holiday engine (lib/colombia-holidays.ts)\<close>

text \<open>
  The remainder operator of the language takes the sign of the dividend;
  \<open>Math.floor(a / b)\<close> on integers is \<open>div\<close>.
\<close>

definition jsRem :: "int \<Rightarrow> int \<Rightarrow> int" where
  "jsRem a b = (if 0 \<le> a then a mod \<bar>b\<bar> else - ((- a) mod \<bar>b\<bar>))"

datatype HolidayType = Fixed | Easter | Movable

text \<open>The display names are written without their accents; no property depends on them.\<close>

record Holiday =
  date :: Date
  name :: string
  type :: HolidayType

definition calculateEaster :: "int \<Rightarrow> Date" where
  "calculateEaster year =
     (let a = jsRem year 19;
          b = year div 100;
          c = jsRem year 100;
          d = b div 4;
          e = jsRem b 4;
          f = (b + 8) div 25;
          g = (b - f + 1) div 3;
          h = jsRem (19 * a + b - d - g + 15) 30;
          i = c div 4;
          k = jsRem c 4;
          l = jsRem (32 + 2 * e + 2 * i - h - k) 7;
          m = (a + 11 * h + 22 * l) div 451;
          month = (h + l - 7 * m + 114) div 31 - 1;
          day = jsRem (h + l - 7 * m + 114) 31 + 1
      in newDate year month day)"

text \<open>The source changes the Date in place and returns it; the model returns the new value.\<close>

definition moveToMonday :: "Date \<Rightarrow> Date" where
  "moveToMonday d =
     (let dayOfWeek = getDay d
      in if dayOfWeek = 0 then setDate d (getDate d + 1)
         else if dayOfWeek \<noteq> 1 then setDate d (getDate d + (8 - dayOfWeek))
         else d)"

text \<open>
  The eighteen entries in the order in which the source pushes them; the final
  \<open>sort\<close> by time value is stable.
\<close>

definition holidaysPushed :: "int \<Rightarrow> Holiday list" where
  "holidaysPushed year =
     (let easter = calculateEaster year
      in [ \<lparr>date = newDate year 0 1, name = ''Ano Nuevo'', type = Fixed\<rparr>,
           \<lparr>date = newDate year 4 1, name = ''Dia del Trabajo'', type = Fixed\<rparr>,
           \<lparr>date = newDate year 6 20, name = ''Dia de la Independencia'', type = Fixed\<rparr>,
           \<lparr>date = newDate year 7 7, name = ''Batalla de Boyaca'', type = Fixed\<rparr>,
           \<lparr>date = newDate year 11 8, name = ''Inmaculada Concepcion'', type = Fixed\<rparr>,
           \<lparr>date = newDate year 11 25, name = ''Navidad'', type = Fixed\<rparr>,
           \<lparr>date = moveToMonday (newDate year 0 6), name = ''Reyes Magos'', type = Movable\<rparr>,
           \<lparr>date = moveToMonday (newDate year 2 19), name = ''San Jose'', type = Movable\<rparr>,
           \<lparr>date = moveToMonday (newDate year 5 29), name = ''San Pedro y San Pablo'',
             type = Movable\<rparr>,
           \<lparr>date = moveToMonday (newDate year 7 15), name = ''Asuncion de la Virgen'',
             type = Movable\<rparr>,
           \<lparr>date = moveToMonday (newDate year 9 12), name = ''Dia de la Raza'', type = Movable\<rparr>,
           \<lparr>date = moveToMonday (newDate year 10 1), name = ''Todos los Santos'', type = Movable\<rparr>,
           \<lparr>date = moveToMonday (newDate year 10 11), name = ''Independencia de Cartagena'',
             type = Movable\<rparr>,
           \<lparr>date = setDate easter (getDate easter - 3), name = ''Jueves Santo'', type = Easter\<rparr>,
           \<lparr>date = setDate easter (getDate easter - 2), name = ''Viernes Santo'', type = Easter\<rparr>,
           \<lparr>date = easter, name = ''Domingo de Pascua'', type = Easter\<rparr>,
           \<lparr>date = moveToMonday (setDate easter (getDate easter + 39)),
             name = ''Ascension del Senor'', type = Easter\<rparr>,
           \<lparr>date = moveToMonday (setDate easter (getDate easter + 60)),
             name = ''Corpus Christi'', type = Easter\<rparr>,
           \<lparr>date = moveToMonday (setDate easter (getDate easter + 68)),
             name = ''Sagrado Corazon'', type = Easter\<rparr> ])"

definition getColombianHolidays :: "int \<Rightarrow> Holiday list" where
  "getColombianHolidays year = sort_key date (holidaysPushed year)"

definition isHoliday :: "Date \<Rightarrow> bool" where
  "isHoliday d =
     (let year = getFullYear d;
          holidays = getColombianHolidays year
      in list_ex (\<lambda>holiday. getFullYear (date holiday) = getFullYear d \<and>
                             getMonth (date holiday) = getMonth d \<and>
                             getDate (date holiday) = getDate d) holidays)"

definition isBusinessDay :: "Date \<Rightarrow> bool" where
  "isBusinessDay d =
     (let dayOfWeek = getDay d
      in if dayOfWeek = 0 \<or> dayOfWeek = 6 then False
         else if isHoliday d then False
         else True)"

subsection \<open>Facts about the holiday engine\<close>

lemma moveToMonday_shift:
  "moveToMonday d =
     d + (if getDay d = 0 then 1 else if getDay d \<noteq> 1 then 8 - getDay d else 0) * msPerDay"
  by (simp add: moveToMonday_def Let_def setDate_getDate)

lemma getDay_moveToMonday: "getDay (moveToMonday d) = 1"
proof -
  have "getDay d = 0 \<or> getDay d = 1 \<or> getDay d = 2 \<or> getDay d = 3 \<or> getDay d = 4
      \<or> getDay d = 5 \<or> getDay d = 6"
    using getDay_range [of d] by arith
  then show ?thesis
    unfolding moveToMonday_shift getDay_add_days by auto
qed

lemma filter_getColombianHolidays:
  "filter P (getColombianHolidays year) = sort_key date (filter P (holidaysPushed year))"
  by (simp add: getColombianHolidays_def filter_sort)

lemma length_holidaysPushed: "length (holidaysPushed year) = 19"
  by (simp add: holidaysPushed_def Let_def)

lemma length_getColombianHolidays: "length (getColombianHolidays year) = 19"
  by (simp add: getColombianHolidays_def length_holidaysPushed)

lemma holidays_2025_dup: "\<not> distinct (map date (getColombianHolidays 2025))"
  by code_simp



subsection \<open>The loops over days\<close>

text \<open>
  Each loop of the source steps its running Date by \<open>setDate(getDate() + 1)\<close> until it
  passes the last day; the loop is a recursive function on the running Date.
\<close>

lemma setDate_next: "setDate t (getDate t + 1) = t + msPerDay"
  using setDate_getDate [of t 1] by simp

function countLoop :: "Date \<Rightarrow> Date \<Rightarrow> int \<Rightarrow> int" where
  "countLoop current endDate count =
     (if current \<le> endDate
      then countLoop (setDate current (getDate current + 1)) endDate
             (if isBusinessDay current then count + 1 else count)
      else count)"
  by pat_completeness auto
termination
  by (relation "measure (\<lambda>(current, endDate, count). nat (endDate - current + 1))")
     (auto simp: setDate_next msPerDay_def)

declare countLoop.simps [simp del]

definition countBusinessDays :: "Date \<Rightarrow> Date \<Rightarrow> int" where
  "countBusinessDays startDate endDate = countLoop startDate endDate 0"

function nthLoop :: "Date \<Rightarrow> Date \<Rightarrow> int \<Rightarrow> int \<Rightarrow> Date option" where
  "nthLoop current lastDay businessDayCount n =
     (if current \<le> lastDay
      then (if isBusinessDay current
            then (if businessDayCount + 1 = n then Some current
                  else nthLoop (setDate current (getDate current + 1)) lastDay
                         (businessDayCount + 1) n)
            else nthLoop (setDate current (getDate current + 1)) lastDay businessDayCount n)
      else None)"
  by pat_completeness auto
termination
  by (relation "measure (\<lambda>(current, lastDay, c, n). nat (lastDay - current + 1))")
     (auto simp: setDate_next msPerDay_def)

declare nthLoop.simps [simp del]

definition getNthBusinessDayOfMonth :: "int \<Rightarrow> int \<Rightarrow> int \<Rightarrow> Date option" where
  "getNthBusinessDayOfMonth year month n =
     (let firstDay = newDate year month 1;
          lastDay = newDate year (month + 1) 0
      in nthLoop firstDay lastDay 0 n)"

function businessDaysLoop :: "Date \<Rightarrow> Date \<Rightarrow> Date list \<Rightarrow> Date list" where
  "businessDaysLoop current lastDay businessDays =
     (if current \<le> lastDay
      then businessDaysLoop (setDate current (getDate current + 1)) lastDay
             (if isBusinessDay current then businessDays @ [current] else businessDays)
      else businessDays)"
  by pat_completeness auto
termination
  by (relation "measure (\<lambda>(current, lastDay, acc). nat (lastDay - current + 1))")
     (auto simp: setDate_next msPerDay_def)

declare businessDaysLoop.simps [simp del]

definition getBusinessDaysOfMonth :: "int \<Rightarrow> int \<Rightarrow> Date list" where
  "getBusinessDaysOfMonth year month =
     (let firstDay = newDate year month 1;
          lastDay = newDate year (month + 1) 0
      in businessDaysLoop firstDay lastDay [])"

text \<open>The Dates that such a loop visits, in order.\<close>

function scanDays :: "Date \<Rightarrow> Date \<Rightarrow> Date list" where
  "scanDays current lastDay =
     (if current \<le> lastDay then current # scanDays (current + msPerDay) lastDay else [])"
  by pat_completeness auto
termination
  by (relation "measure (\<lambda>(current, lastDay). nat (lastDay - current + 1))")
     (auto simp: msPerDay_def)

declare scanDays.simps [simp del]


subsection \<open>The table of payment limits\<close>

record Limite =
  DIAS_HABILES :: int
  DIGITOS_NIT :: string

definition LIMITE_SEG_SOCIAL :: "Limite list" where
  "LIMITE_SEG_SOCIAL =
     [
       \<lparr>DIAS_HABILES = 5, DIGITOS_NIT = ''22''\<rparr>, \<lparr>DIAS_HABILES = 5, DIGITOS_NIT = ''23''\<rparr>,
       \<lparr>DIAS_HABILES = 2, DIGITOS_NIT = ''00''\<rparr>, \<lparr>DIAS_HABILES = 2, DIGITOS_NIT = ''01''\<rparr>,
       \<lparr>DIAS_HABILES = 2, DIGITOS_NIT = ''02''\<rparr>, \<lparr>DIAS_HABILES = 2, DIGITOS_NIT = ''03''\<rparr>,
       \<lparr>DIAS_HABILES = 2, DIGITOS_NIT = ''04''\<rparr>, \<lparr>DIAS_HABILES = 2, DIGITOS_NIT = ''05''\<rparr>,
       \<lparr>DIAS_HABILES = 2, DIGITOS_NIT = ''06''\<rparr>, \<lparr>DIAS_HABILES = 2, DIGITOS_NIT = ''07''\<rparr>,
       \<lparr>DIAS_HABILES = 3, DIGITOS_NIT = ''08''\<rparr>, \<lparr>DIAS_HABILES = 3, DIGITOS_NIT = ''09''\<rparr>,
       \<lparr>DIAS_HABILES = 3, DIGITOS_NIT = ''10''\<rparr>, \<lparr>DIAS_HABILES = 3, DIGITOS_NIT = ''11''\<rparr>,
       \<lparr>DIAS_HABILES = 3, DIGITOS_NIT = ''12''\<rparr>, \<lparr>DIAS_HABILES = 3, DIGITOS_NIT = ''13''\<rparr>,
       \<lparr>DIAS_HABILES = 3, DIGITOS_NIT = ''14''\<rparr>, \<lparr>DIAS_HABILES = 4, DIGITOS_NIT = ''15''\<rparr>,
       \<lparr>DIAS_HABILES = 4, DIGITOS_NIT = ''16''\<rparr>, \<lparr>DIAS_HABILES = 4, DIGITOS_NIT = ''17''\<rparr>,
       \<lparr>DIAS_HABILES = 4, DIGITOS_NIT = ''18''\<rparr>, \<lparr>DIAS_HABILES = 4, DIGITOS_NIT = ''19''\<rparr>,
       \<lparr>DIAS_HABILES = 4, DIGITOS_NIT = ''20''\<rparr>, \<lparr>DIAS_HABILES = 4, DIGITOS_NIT = ''21''\<rparr>,
       \<lparr>DIAS_HABILES = 5, DIGITOS_NIT = ''24''\<rparr>, \<lparr>DIAS_HABILES = 5, DIGITOS_NIT = ''25''\<rparr>,
       \<lparr>DIAS_HABILES = 5, DIGITOS_NIT = ''26''\<rparr>, \<lparr>DIAS_HABILES = 5, DIGITOS_NIT = ''27''\<rparr>,
       \<lparr>DIAS_HABILES = 5, DIGITOS_NIT = ''28''\<rparr>, \<lparr>DIAS_HABILES = 6, DIGITOS_NIT = ''29''\<rparr>,
       \<lparr>DIAS_HABILES = 6, DIGITOS_NIT = ''30''\<rparr>, \<lparr>DIAS_HABILES = 6, DIGITOS_NIT = ''31''\<rparr>,
       \<lparr>DIAS_HABILES = 6, DIGITOS_NIT = ''32''\<rparr>, \<lparr>DIAS_HABILES = 6, DIGITOS_NIT = ''33''\<rparr>,
       \<lparr>DIAS_HABILES = 6, DIGITOS_NIT = ''34''\<rparr>, \<lparr>DIAS_HABILES = 6, DIGITOS_NIT = ''35''\<rparr>,
       \<lparr>DIAS_HABILES = 7, DIGITOS_NIT = ''36''\<rparr>, \<lparr>DIAS_HABILES = 7, DIGITOS_NIT = ''37''\<rparr>,
       \<lparr>DIAS_HABILES = 7, DIGITOS_NIT = ''38''\<rparr>, \<lparr>DIAS_HABILES = 7, DIGITOS_NIT = ''39''\<rparr>,
       \<lparr>DIAS_HABILES = 7, DIGITOS_NIT = ''40''\<rparr>, \<lparr>DIAS_HABILES = 7, DIGITOS_NIT = ''41''\<rparr>,
       \<lparr>DIAS_HABILES = 7, DIGITOS_NIT = ''42''\<rparr>, \<lparr>DIAS_HABILES = 8, DIGITOS_NIT = ''43''\<rparr>,
       \<lparr>DIAS_HABILES = 8, DIGITOS_NIT = ''44''\<rparr>, \<lparr>DIAS_HABILES = 8, DIGITOS_NIT = ''45''\<rparr>,
       \<lparr>DIAS_HABILES = 8, DIGITOS_NIT = ''46''\<rparr>, \<lparr>DIAS_HABILES = 8, DIGITOS_NIT = ''47''\<rparr>,
       \<lparr>DIAS_HABILES = 8, DIGITOS_NIT = ''48''\<rparr>, \<lparr>DIAS_HABILES = 8, DIGITOS_NIT = ''49''\<rparr>,
       \<lparr>DIAS_HABILES = 9, DIGITOS_NIT = ''50''\<rparr>, \<lparr>DIAS_HABILES = 9, DIGITOS_NIT = ''51''\<rparr>,
       \<lparr>DIAS_HABILES = 9, DIGITOS_NIT = ''52''\<rparr>, \<lparr>DIAS_HABILES = 9, DIGITOS_NIT = ''53''\<rparr>,
       \<lparr>DIAS_HABILES = 9, DIGITOS_NIT = ''54''\<rparr>, \<lparr>DIAS_HABILES = 9, DIGITOS_NIT = ''55''\<rparr>,
       \<lparr>DIAS_HABILES = 9, DIGITOS_NIT = ''56''\<rparr>, \<lparr>DIAS_HABILES = 10, DIGITOS_NIT = ''57''\<rparr>,
       \<lparr>DIAS_HABILES = 10, DIGITOS_NIT = ''58''\<rparr>, \<lparr>DIAS_HABILES = 10, DIGITOS_NIT = ''59''\<rparr>,
       \<lparr>DIAS_HABILES = 10, DIGITOS_NIT = ''60''\<rparr>, \<lparr>DIAS_HABILES = 10, DIGITOS_NIT = ''61''\<rparr>,
       \<lparr>DIAS_HABILES = 10, DIGITOS_NIT = ''62''\<rparr>, \<lparr>DIAS_HABILES = 10, DIGITOS_NIT = ''63''\<rparr>,
       \<lparr>DIAS_HABILES = 11, DIGITOS_NIT = ''64''\<rparr>, \<lparr>DIAS_HABILES = 11, DIGITOS_NIT = ''65''\<rparr>,
       \<lparr>DIAS_HABILES = 11, DIGITOS_NIT = ''66''\<rparr>, \<lparr>DIAS_HABILES = 11, DIGITOS_NIT = ''67''\<rparr>,
       \<lparr>DIAS_HABILES = 11, DIGITOS_NIT = ''68''\<rparr>, \<lparr>DIAS_HABILES = 11, DIGITOS_NIT = ''69''\<rparr>,
       \<lparr>DIAS_HABILES = 12, DIGITOS_NIT = ''70''\<rparr>, \<lparr>DIAS_HABILES = 12, DIGITOS_NIT = ''71''\<rparr>,
       \<lparr>DIAS_HABILES = 12, DIGITOS_NIT = ''72''\<rparr>, \<lparr>DIAS_HABILES = 12, DIGITOS_NIT = ''73''\<rparr>,
       \<lparr>DIAS_HABILES = 12, DIGITOS_NIT = ''74''\<rparr>, \<lparr>DIAS_HABILES = 12, DIGITOS_NIT = ''75''\<rparr>,
       \<lparr>DIAS_HABILES = 13, DIGITOS_NIT = ''76''\<rparr>, \<lparr>DIAS_HABILES = 13, DIGITOS_NIT = ''77''\<rparr>,
       \<lparr>DIAS_HABILES = 13, DIGITOS_NIT = ''78''\<rparr>, \<lparr>DIAS_HABILES = 13, DIGITOS_NIT = ''79''\<rparr>,
       \<lparr>DIAS_HABILES = 13, DIGITOS_NIT = ''80''\<rparr>, \<lparr>DIAS_HABILES = 13, DIGITOS_NIT = ''81''\<rparr>,
       \<lparr>DIAS_HABILES = 14, DIGITOS_NIT = ''82''\<rparr>, \<lparr>DIAS_HABILES = 14, DIGITOS_NIT = ''83''\<rparr>,
       \<lparr>DIAS_HABILES = 14, DIGITOS_NIT = ''84''\<rparr>, \<lparr>DIAS_HABILES = 14, DIGITOS_NIT = ''85''\<rparr>,
       \<lparr>DIAS_HABILES = 14, DIGITOS_NIT = ''86''\<rparr>, \<lparr>DIAS_HABILES = 14, DIGITOS_NIT = ''87''\<rparr>,
       \<lparr>DIAS_HABILES = 15, DIGITOS_NIT = ''88''\<rparr>, \<lparr>DIAS_HABILES = 15, DIGITOS_NIT = ''89''\<rparr>,
       \<lparr>DIAS_HABILES = 15, DIGITOS_NIT = ''90''\<rparr>, \<lparr>DIAS_HABILES = 15, DIGITOS_NIT = ''91''\<rparr>,
       \<lparr>DIAS_HABILES = 15, DIGITOS_NIT = ''92''\<rparr>, \<lparr>DIAS_HABILES = 15, DIGITOS_NIT = ''93''\<rparr>,
       \<lparr>DIAS_HABILES = 16, DIGITOS_NIT = ''94''\<rparr>, \<lparr>DIAS_HABILES = 16, DIGITOS_NIT = ''95''\<rparr>,
       \<lparr>DIAS_HABILES = 16, DIGITOS_NIT = ''96''\<rparr>, \<lparr>DIAS_HABILES = 16, DIGITOS_NIT = ''97''\<rparr>,
       \<lparr>DIAS_HABILES = 16, DIGITOS_NIT = ''98''\<rparr>, \<lparr>DIAS_HABILES = 16, DIGITOS_NIT = ''99''\<rparr> ]"

section \<open>The payment date calculator (lib/pila-utils.ts)\<close>

subsection \<open>Numbers and strings of the language\<close>

text \<open>
  A NIT arrives as a string or as a number; numbers are integers here.  \<open>String(n)\<close>
  writes an integer in decimal, with a minus sign when negative.  Strings are lists of
  characters; \<open>slice(-2)\<close> keeps the last two characters (all of them when there are
  fewer), \<open>padStart(2, '0')\<close> fills up to two characters from the left.
\<close>

datatype Nit = NitString string | NitNumber int

definition digitChar :: "int \<Rightarrow> char" where
  "digitChar n = ''0123456789'' ! nat n"

function digitsToString :: "int \<Rightarrow> string" where
  "digitsToString n =
     (if n < 10 then [digitChar n] else digitsToString (n div 10) @ [digitChar (n mod 10)])"
  by pat_completeness auto
termination
  by (relation "measure nat") auto

declare digitsToString.simps [simp del]

definition numberToString :: "int \<Rightarrow> string" where
  "numberToString n = (if n < 0 then CHR ''-'' # digitsToString (- n) else digitsToString n)"

fun String :: "Nit \<Rightarrow> string" where
  "String (NitString s) = s"
| "String (NitNumber n) = numberToString n"

definition sliceLast2 :: "string \<Rightarrow> string" where
  "sliceLast2 s = drop (length s - 2) s"

definition padStart2 :: "string \<Rightarrow> string" where
  "padStart2 s = replicate (2 - length s) (CHR ''0'') @ s"

definition isDigit :: "char \<Rightarrow> bool" where
  "isDigit c = (c \<in> set ''0123456789'')"

subsection \<open>The lookup by the last two characters of the NIT\<close>

text \<open>
  \<open>ultimosDigitos\<close> is the key that both \<open>calcularFechasPagoPila\<close> and
  \<open>getDiasHabilesPago\<close> compute: \<open>String(nit).slice(-2).padStart(2, '0')\<close>.
  The warning written to the console when the key is not in the table is not modelled.
\<close>

definition ultimosDigitos :: "Nit \<Rightarrow> string" where
  "ultimosDigitos nit = (let nitStr = String nit in padStart2 (sliceLast2 nitStr))"

definition getDiasHabilesPago :: "Nit \<Rightarrow> int" where
  "getDiasHabilesPago nit =
     (case find (\<lambda>item. DIGITOS_NIT item = ultimosDigitos nit) LIMITE_SEG_SOCIAL of
        None \<Rightarrow> 10
      | Some limiteSeg \<Rightarrow> DIAS_HABILES limiteSeg)"

text \<open>\<open>validarNIT\<close> removes every character that is not a digit before it counts.\<close>

definition validarNIT :: "Nit \<Rightarrow> bool" where
  "validarNIT nit =
     (let nitStr = filter isDigit (String nit)
      in if length nitStr < 8 \<or> length nitStr > 10 then False else True)"

subsection \<open>Formatting and reading back a date\<close>

definition formatDate :: "Date \<Rightarrow> string" where
  "formatDate d =
     (let dia = padStart2 (numberToString (getDate d));
          mes = padStart2 (numberToString (getMonth d + 1));
          anio = getFullYear d
      in dia @ ''/'' @ mes @ ''/'' @ numberToString anio)"

text \<open>\<open>split('/')\<close>: the pieces between the slashes.\<close>

fun splitOn :: "char \<Rightarrow> string \<Rightarrow> string list" where
  "splitOn c [] = [[]]"
| "splitOn c (x # xs) =
     (if x = c then [] # splitOn c xs
      else (case splitOn c xs of [] \<Rightarrow> [[x]] | p # ps \<Rightarrow> (x # p) # ps))"

definition digitValue :: "char \<Rightarrow> int" where
  "digitValue c = int (length (takeWhile (\<lambda>x. x \<noteq> c) ''0123456789''))"

fun parseDigits :: "string \<Rightarrow> int \<Rightarrow> int option" where
  "parseDigits [] acc = Some acc"
| "parseDigits (c # cs) acc =
     (if isDigit c then parseDigits cs (acc * 10 + digitValue c) else None)"

text \<open>
  \<open>Number(s)\<close> on the strings that occur here: an optionally signed run of decimal digits
  gives its value, the empty string gives 0, and everything else counts as not a number
  (\<open>None\<close>), which makes the Date built from it invalid.
\<close>

definition Number :: "string \<Rightarrow> int option" where
  "Number s =
     (case s of
        [] \<Rightarrow> Some 0
      | c # cs \<Rightarrow>
          if c = CHR ''-'' then (if cs = [] then None else map_option uminus (parseDigits cs 0))
          else if c = CHR ''+'' then (if cs = [] then None else parseDigits cs 0)
          else parseDigits s 0)"

text \<open>
  Lines 117 and 118 of the source, and \<open>parseDate\<close>: split at the slashes, read the
  first three pieces as numbers, build the Date.  \<open>None\<close> is the invalid Date.
\<close>

definition parseDate :: "string \<Rightarrow> Date option" where
  "parseDate dateStr =
     (case map Number (splitOn (CHR ''/'') dateStr) of
        Some dia # Some mes # Some anio # _ \<Rightarrow> Some (newDate anio (mes - 1) dia)
      | _ \<Rightarrow> None)"

subsection \<open>The payment dates of a period\<close>

datatype Estado = Success | Warning | Normal

record FechaCorte =
  id' :: int
  fecha :: string
  estado :: Estado
  mesTexto :: string

text \<open>
  The month and year as the es-CO locale writes them (for instance
  \<open>enero de 2025\<close>); the text comes from the platform's locale data and no property
  depends on it.
\<close>

definition nombreMes :: "int \<Rightarrow> string" where
  "nombreMes m =
     (if m = 0 then ''enero'' else if m = 1 then ''febrero'' else if m = 2 then ''marzo''
      else if m = 3 then ''abril'' else if m = 4 then ''mayo'' else if m = 5 then ''junio''
      else if m = 6 then ''julio'' else if m = 7 then ''agosto''
      else if m = 8 then ''septiembre'' else if m = 9 then ''octubre''
      else if m = 10 then ''noviembre'' else ''diciembre'')"

definition formatMesAnio :: "Date \<Rightarrow> string" where
  "formatMesAnio d = nombreMes (getMonth d) @ '' de '' @ numberToString (getFullYear d)"

text \<open>
  \<open>calcularDiasHastaFecha\<close> reads the clock (the parameter \<open>now\<close>; one reading serves a
  whole call of the calculator) and sets its argument to midnight in place; the model
  returns the number of days together with the changed Date.  \<open>Math.ceil\<close> of a quotient
  of integers is written with \<open>div\<close>.
\<close>

definition calcularDiasHastaFecha :: "Date \<Rightarrow> Date \<Rightarrow> int \<times> Date" where
  "calcularDiasHastaFecha now fechaArg =
     (let hoy = setHours0 now;
          fechaMedianoche = setHours0 fechaArg;
          diferenciaMilisegundos = fechaMedianoche - hoy
      in (- ((- diferenciaMilisegundos) div msPerDay), fechaMedianoche))"

text \<open>The entry pushed for a payment day inside the period (lines 74 to 100).\<close>

definition entradaPago :: "Date \<Rightarrow> int \<Rightarrow> Date \<Rightarrow> FechaCorte" where
  "entradaPago now idCounter diaPago =
     (let fechaFormateada = formatDate diaPago;
          r = calcularDiasHastaFecha now diaPago;
          diasHastaFecha = fst r;
          diaPagoMedianoche = snd r;
          estadoInicial =
            (if diasHastaFecha < 0 then Normal
             else if diasHastaFecha \<le> 10 then Warning
             else Normal)
      in \<lparr>id' = idCounter, fecha = fechaFormateada, estado = estadoInicial,
          mesTexto = formatMesAnio diaPagoMedianoche\<rparr>)"

text \<open>The payment day of one month, when it exists and lies inside the visit (lines 69 to 73).\<close>

definition pagoDelMes :: "Date \<Rightarrow> Date \<Rightarrow> int \<Rightarrow> int \<Rightarrow> int \<Rightarrow> Date option" where
  "pagoDelMes inicioVisita finVisita diasHabilesRequeridos anioActual mesActual =
     (case getNthBusinessDayOfMonth anioActual mesActual diasHabilesRequeridos of
        None \<Rightarrow> None
      | Some diaPago \<Rightarrow>
          if diaPago \<ge> inicioVisita \<and> diaPago \<le> finVisita then Some diaPago else None)"

function mesesLoop ::
  "Date \<Rightarrow> Date \<Rightarrow> int \<Rightarrow> Date \<Rightarrow> int \<Rightarrow> int \<Rightarrow> int \<Rightarrow> int \<Rightarrow> int \<Rightarrow> FechaCorte list
   \<Rightarrow> FechaCorte list" where
  "mesesLoop inicioVisita finVisita diasHabilesRequeridos now mesFin anioFin
       mesActual anioActual idCounter fechasPago =
     (if anioActual < anioFin \<or> (anioActual = anioFin \<and> mesActual \<le> mesFin)
      then (case pagoDelMes inicioVisita finVisita diasHabilesRequeridos anioActual mesActual of
              None \<Rightarrow>
                mesesLoop inicioVisita finVisita diasHabilesRequeridos now mesFin anioFin
                  (if mesActual + 1 > 11 then 0 else mesActual + 1)
                  (if mesActual + 1 > 11 then anioActual + 1 else anioActual)
                  idCounter fechasPago
            | Some diaPago \<Rightarrow>
                mesesLoop inicioVisita finVisita diasHabilesRequeridos now mesFin anioFin
                  (if mesActual + 1 > 11 then 0 else mesActual + 1)
                  (if mesActual + 1 > 11 then anioActual + 1 else anioActual)
                  (idCounter + 1) (fechasPago @ [entradaPago now idCounter diaPago]))
      else fechasPago)"
  by pat_completeness auto
termination
  by (relation "measures [\<lambda>(i, f, d, now, mf, af, m, a, c, fs). nat (af - a + 1),
                          \<lambda>(i, f, d, now, mf, af, m, a, c, fs). nat (12 - m)]")
     auto

declare mesesLoop.simps [simp del]

text \<open>
  The final pass (lines 116 to 124): the first entry whose date, read back from its
  text, is not before today becomes \<open>Success\<close>, and the pass stops there.
\<close>

fun marcarPrimeraFutura :: "Date \<Rightarrow> FechaCorte list \<Rightarrow> FechaCorte list" where
  "marcarPrimeraFutura hoy [] = []"
| "marcarPrimeraFutura hoy (f # fs) =
     (if (case parseDate (fecha f) of None \<Rightarrow> False | Some fechaCorte \<Rightarrow> fechaCorte \<ge> hoy)
      then f\<lparr>estado := Success\<rparr> # fs
      else f # marcarPrimeraFutura hoy fs)"

definition calcularFechasConDiasHabiles :: "Date \<Rightarrow> Date \<Rightarrow> Date \<Rightarrow> int \<Rightarrow> FechaCorte list" where
  "calcularFechasConDiasHabiles now inicioVisita finVisita diasHabilesRequeridos =
     (let mesActual = getMonth inicioVisita;
          anioActual = getFullYear inicioVisita;
          mesFin = getMonth finVisita;
          anioFin = getFullYear finVisita;
          fechasPago = mesesLoop inicioVisita finVisita diasHabilesRequeridos now mesFin anioFin
                         mesActual anioActual 1 [];
          hoy = setHours0 now
      in marcarPrimeraFutura hoy fechasPago)"

text \<open>
  \<open>calcularFechasPagoPila\<close> receives the two dates as text and turns them into Dates
  first; the model starts from the Dates.  \<open>now\<close> is the reading of the clock.
\<close>

definition calcularFechasPagoPila :: "Date \<Rightarrow> Nit \<Rightarrow> Date \<Rightarrow> Date \<Rightarrow> FechaCorte list" where
  "calcularFechasPagoPila now nit inicioVisita finVisita =
     (case find (\<lambda>item. DIGITOS_NIT item = ultimosDigitos nit) LIMITE_SEG_SOCIAL of
        None \<Rightarrow> calcularFechasConDiasHabiles now inicioVisita finVisita 10
      | Some limiteSeg \<Rightarrow>
          calcularFechasConDiasHabiles now inicioVisita finVisita (DIAS_HABILES limiteSeg))"

section \<open>Notions used in the statements\<close>

text \<open>
  \<open>jsYear\<close> is the year that the Date constructor uses for its first argument and
  \<open>leapOf\<close> the leap day of a year.  \<open>daysOfMonth\<close> lists the days 1 to the last of a
  month in order; the last day is the day 0 of the following month, as in the source.
\<close>

definition jsYear :: "int \<Rightarrow> int" where
  "jsYear year = (if 0 \<le> year \<and> year \<le> 99 then 1900 + year else year)"

definition leapOf :: "int \<Rightarrow> int" where
  "leapOf y = (if DaysInYear y = 366 then 1 else 0)"

definition daysOfMonth :: "int \<Rightarrow> int \<Rightarrow> Date list" where
  "daysOfMonth year month =
     map (\<lambda>k. newDate year month (int k)) [1..<Suc (nat (getDate (newDate year (month + 1) 0)))]"

text \<open>
  \<open>calendarDays\<close> lists the days 1 to the last of the calendar month of a year, with the
  year taken as it is written (the Date constructor is not used).
\<close>

definition calendarDays :: "int \<Rightarrow> int \<Rightarrow> Date list" where
  "calendarDays year month =
     map (\<lambda>k. MakeDate (MakeDay year month (int k)) 0)
       [1..<Suc (nat (getDate (MakeDate (MakeDay year (month + 1) 0) 0)))]"

text \<open>
  \<open>indiceMes\<close> numbers the calendar months (12 * year + month), and \<open>mesEnPeriodo\<close> says
  that a calendar month lies between the month of the start and the month of the end of
  the visit, which are the months the loop of \<open>calcularFechasConDiasHabiles\<close> goes through.
\<close>

definition indiceMes :: "Date \<Rightarrow> int" where
  "indiceMes t = getFullYear t * 12 + getMonth t"

definition mesEnPeriodo :: "Date \<Rightarrow> Date \<Rightarrow> int \<Rightarrow> int \<Rightarrow> bool" where
  "mesEnPeriodo inicioVisita finVisita anio mes =
     ((getFullYear inicioVisita < anio \<or> (getFullYear inicioVisita = anio \<and> getMonth inicioVisita \<le> mes))
      \<and> (anio < getFullYear finVisita \<or> (anio = getFullYear finVisita \<and> mes \<le> getMonth finVisita)))"

text \<open>
  \<open>pagosDelPeriodo\<close> is the list of payment days that the loop finds for the months from
  one index to another, and \<open>entradas\<close> the entries pushed for them, numbered from a given
  counter.
\<close>

definition pagosDelPeriodo :: "Date \<Rightarrow> Date \<Rightarrow> int \<Rightarrow> int \<Rightarrow> int \<Rightarrow> Date list" where
  "pagosDelPeriodo inicioVisita finVisita dias i j =
     List.map_filter (\<lambda>k. pagoDelMes inicioVisita finVisita dias (k div 12) (k mod 12)) [i..j]"

fun entradas :: "Date \<Rightarrow> int \<Rightarrow> Date list \<Rightarrow> FechaCorte list" where
  "entradas now c [] = []"
| "entradas now c (d # ds) = entradaPago now c d # entradas now (c + 1) ds"

text \<open>
  \<open>fechaDe\<close> is the date read back from the text of an entry, as the final pass reads
  it, and \<open>futura\<close> is the test of that pass.
\<close>

definition fechaDe :: "FechaCorte \<Rightarrow> Date" where
  "fechaDe e = the (parseDate (fecha e))"

definition futura :: "Date \<Rightarrow> FechaCorte \<Rightarrow> bool" where
  "futura hoy f = (case parseDate (fecha f) of None \<Rightarrow> False | Some fechaCorte \<Rightarrow> fechaCorte \<ge> hoy)"

section \<open>Facts about the model\<close>

subsection \<open>Facts about the loops over days\<close>

lemma countLoop_scan:
  "countLoop current endDate count
     = count + int (length (filter isBusinessDay (scanDays current endDate)))"
proof (induction current endDate count rule: countLoop.induct)
  case (1 current endDate count)
  show ?case
  proof (cases "current \<le> endDate")
    case True
    then show ?thesis
      using "1.IH" by (subst countLoop.simps, subst scanDays.simps) (simp add: setDate_next)
  next
    case False
    then show ?thesis
      by (subst countLoop.simps, subst scanDays.simps) simp
  qed
qed

lemma businessDaysLoop_scan:
  "businessDaysLoop current lastDay acc
     = acc @ filter isBusinessDay (scanDays current lastDay)"
proof (induction current lastDay acc rule: businessDaysLoop.induct)
  case (1 current lastDay acc)
  show ?case
  proof (cases "current \<le> lastDay")
    case True
    then show ?thesis
      using "1.IH" by (subst businessDaysLoop.simps, subst scanDays.simps) (simp add: setDate_next)
  next
    case False
    then show ?thesis
      by (subst businessDaysLoop.simps, subst scanDays.simps) simp
  qed
qed

lemma nthLoop_scan:
  "nthLoop current lastDay c n =
     (let bs = filter isBusinessDay (scanDays current lastDay)
      in if c < n \<and> n - c \<le> int (length bs) then Some (bs ! nat (n - c - 1)) else None)"
proof (induction current lastDay c n rule: nthLoop.induct)
  case (1 current lastDay c n)
  show ?case
  proof (cases "current \<le> lastDay")
    case False
    then show ?thesis
      by (subst nthLoop.simps, subst scanDays.simps) simp
  next
    case True
    note le = this
    have sc: "scanDays current lastDay = current # scanDays (current + msPerDay) lastDay"
      using le by (subst scanDays.simps) simp
    show ?thesis
    proof (cases "isBusinessDay current")
      case False
      then show ?thesis
        using le "1.IH"(2) by (subst nthLoop.simps) (simp add: sc setDate_next)
    next
      case True
      note bd = this
      show ?thesis
      proof (cases "c + 1 = n")
        case True
        then show ?thesis
          using le bd by (subst nthLoop.simps) (auto simp: sc Let_def)
      next
        case False
        have nth_shift: "c + 1 < n \<Longrightarrow> (current # xs) ! nat (n - c - 1) = xs ! nat (n - (c + 1) - 1)" for xs
        proof -
          assume "c + 1 < n"
          then have "nat (n - c - 1) = Suc (nat (n - (c + 1) - 1))" by simp
          then show ?thesis by simp
        qed
        show ?thesis
          using le bd False "1.IH"(1) nth_shift
          by (subst nthLoop.simps) (auto simp: sc Let_def setDate_next)
      qed
    qed
  qed
qed

lemma getBusinessDaysOfMonth_scan:
  "getBusinessDaysOfMonth year month
     = filter isBusinessDay (scanDays (newDate year month 1) (newDate year (month + 1) 0))"
  by (simp add: getBusinessDaysOfMonth_def Let_def businessDaysLoop_scan)

lemma getNthBusinessDayOfMonth_scan:
  "getNthBusinessDayOfMonth year month n =
     (let bs = filter isBusinessDay (scanDays (newDate year month 1) (newDate year (month + 1) 0))
      in if 1 \<le> n \<and> n \<le> int (length bs) then Some (bs ! nat (n - 1)) else None)"
  by (simp add: getNthBusinessDayOfMonth_def Let_def nthLoop_scan) 


lemma scanDays_map:
  "scanDays current lastDay
     = map (\<lambda>k. current + int k * msPerDay) [0..<nat ((lastDay - current) div msPerDay + 1)]"
proof (induction current lastDay rule: scanDays.induct)
  case (1 current lastDay)
  show ?case
  proof (cases "current \<le> lastDay")
    case False
    then have "(lastDay - current) div msPerDay < 0"
      using msPerDay_pos by (simp add: div_neg_pos_less0)
    then show ?thesis
      using False by (subst scanDays.simps) simp
  next
    case True
    have d: "(lastDay - (current + msPerDay)) div msPerDay = (lastDay - current) div msPerDay - 1"
    proof -
      have e: "lastDay - (current + msPerDay) = (lastDay - current) + (- 1) * msPerDay" by simp
      have "((lastDay - current) + (- 1) * msPerDay) div msPerDay
              = (lastDay - current) div msPerDay + (- 1)"
        using msPerDay_pos by (subst div_mult_self1) simp_all
      then show ?thesis by (subst e) simp
    qed
    have nn: "0 \<le> (lastDay - current) div msPerDay"
      using True msPerDay_pos by (simp add: pos_imp_zdiv_nonneg_iff)
    then have n: "nat ((lastDay - current) div msPerDay + 1) = Suc (nat ((lastDay - current) div msPerDay))"
      by simp
    have "scanDays current lastDay = current # scanDays (current + msPerDay) lastDay"
      using True by (subst scanDays.simps) simp
    also have "\<dots> = current # map (\<lambda>k. current + msPerDay + int k * msPerDay)
                          [0..<nat ((lastDay - current) div msPerDay)]"
      using "1.IH" [OF True] by (simp add: d)
    also have "\<dots> = map (\<lambda>k. current + int k * msPerDay) [0..<Suc (nat ((lastDay - current) div msPerDay))]"
      by (simp add: map_upt_Suc algebra_simps del: upt_Suc)
    finally show ?thesis by (simp only: n)
  qed
qed

lemma length_scanDays: "length (scanDays current lastDay) = nat ((lastDay - current) div msPerDay + 1)"
  by (simp add: scanDays_map)

lemma nth_scanDays:
  "k < length (scanDays current lastDay) \<Longrightarrow> scanDays current lastDay ! k = current + int k * msPerDay"
  by (simp add: scanDays_map)

lemma in_range_scanDays:
  "int k < (lastDay - current) div msPerDay + 1 \<longleftrightarrow> current + int k * msPerDay \<le> lastDay"
proof -
  have "int k < (lastDay - current) div msPerDay + 1 \<longleftrightarrow> int k \<le> (lastDay - current) div msPerDay"
    by arith
  also have "\<dots> \<longleftrightarrow> int k * msPerDay \<le> lastDay - current"
  proof
    assume "int k \<le> (lastDay - current) div msPerDay"
    then have "int k * msPerDay \<le> (lastDay - current) div msPerDay * msPerDay"
      using msPerDay_pos by simp
    also have "\<dots> \<le> lastDay - current"
      using msPerDay_pos div_mult_mod_eq [of "lastDay - current" msPerDay]
        pos_mod_sign [of msPerDay "lastDay - current"] by linarith
    finally show "int k * msPerDay \<le> lastDay - current" .
  next
    assume "int k * msPerDay \<le> lastDay - current"
    then have "(int k * msPerDay) div msPerDay \<le> (lastDay - current) div msPerDay"
      using msPerDay_pos by (intro zdiv_mono1) simp_all
    then show "int k \<le> (lastDay - current) div msPerDay"
      using msPerDay_pos by simp
  qed
  finally show ?thesis by (simp add: algebra_simps)
qed

lemma sorted_scanDays: "sorted_wrt (<) (scanDays current lastDay)"
proof -
  have "sorted_wrt (<) (map (\<lambda>k. current + int k * msPerDay) [0..<n])" for n
    unfolding sorted_wrt_map
    by (rule sorted_wrt_mono_rel [OF _ sorted_wrt_upt]) (use msPerDay_pos in simp)
  then show ?thesis by (simp add: scanDays_map)
qed

lemma YearFromTime_Day: "Day t = Day t' \<Longrightarrow> YearFromTime t = YearFromTime t'"
  by (simp add: YearFromTime_def)

lemma DayWithinYear_Day: "Day t = Day t' \<Longrightarrow> DayWithinYear t = DayWithinYear t'"
  by (simp add: DayWithinYear_def YearFromTime_Day [of t t'])

lemma InLeapYear_Day: "Day t = Day t' \<Longrightarrow> InLeapYear t = InLeapYear t'"
  by (simp add: InLeapYear_def YearFromTime_Day [of t t'])

lemma MonthFromTime_Day: "Day t = Day t' \<Longrightarrow> MonthFromTime t = MonthFromTime t'"
  by (simp add: MonthFromTime_def DayWithinYear_Day [of t t'] InLeapYear_Day [of t t'])

lemma DateFromTime_Day: "Day t = Day t' \<Longrightarrow> DateFromTime t = DateFromTime t'"
  by (simp add: DateFromTime_def DayWithinYear_Day [of t t'] InLeapYear_Day [of t t']
      MonthFromTime_Day [of t t'])

lemma isHoliday_Day: "Day t = Day t' \<Longrightarrow> isHoliday t = isHoliday t'"
  by (simp add: isHoliday_def getFullYear_def getMonth_def getDate_def
      YearFromTime_Day [of t t'] MonthFromTime_Day [of t t'] DateFromTime_Day [of t t'])

lemma isBusinessDay_Day: "Day t = Day t' \<Longrightarrow> isBusinessDay t = isBusinessDay t'"
  by (simp add: isBusinessDay_def getDay_def WeekDay_def isHoliday_Day [of t t'])

lemma TimeWithinDay_range: "0 \<le> TimeWithinDay t \<and> TimeWithinDay t < msPerDay"
  using msPerDay_pos by (simp add: TimeWithinDay_def)

lemma countBusinessDays_scan:
  "countBusinessDays startDate endDate
     = int (length (filter isBusinessDay (scanDays startDate endDate)))"
  by (simp add: countBusinessDays_def countLoop_scan)

lemma countBusinessDays_card:
  "countBusinessDays startDate endDate
     = int (card {k::nat. startDate + int k * msPerDay \<le> endDate
                          \<and> isBusinessDay (startDate + int k * msPerDay)})"
proof -
  have "{i. i < length (scanDays startDate endDate) \<and> isBusinessDay (scanDays startDate endDate ! i)}
      = {k::nat. startDate + int k * msPerDay \<le> endDate \<and> isBusinessDay (startDate + int k * msPerDay)}"
  proof (intro Collect_cong)
    fix k :: nat
    have r: "k < length (scanDays startDate endDate) \<longleftrightarrow> startDate + int k * msPerDay \<le> endDate"
      using in_range_scanDays [of k endDate startDate] by (simp add: length_scanDays) arith
    show "(k < length (scanDays startDate endDate) \<and> isBusinessDay (scanDays startDate endDate ! k))
        = (startDate + int k * msPerDay \<le> endDate \<and> isBusinessDay (startDate + int k * msPerDay))"
      using r nth_scanDays [of k startDate endDate] by auto
  qed
  then show ?thesis
    by (simp add: countBusinessDays_scan length_filter_conv_card)
qed

lemma days_in_interval:
  assumes "TimeWithinDay s \<le> TimeWithinDay e"
  shows "s + int k * msPerDay \<le> e \<longleftrightarrow> Day s + int k \<le> Day e"
proof -
  have a: "s = Day s * 86400000 + TimeWithinDay s" "e = Day e * 86400000 + TimeWithinDay e"
    using Date_split [of s] Date_split [of e] by (simp_all add: msPerDay_def)
  have b: "0 \<le> TimeWithinDay s" "TimeWithinDay s < 86400000" "0 \<le> TimeWithinDay e" "TimeWithinDay e < 86400000"
    using TimeWithinDay_range [of s] TimeWithinDay_range [of e] by (simp_all add: msPerDay_def)
  show ?thesis
    unfolding msPerDay_def using a b assms by linarith
qed

lemma countBusinessDays_calendar:
  assumes "TimeWithinDay startDate \<le> TimeWithinDay endDate"
  shows "countBusinessDays startDate endDate
     = int (card {D. Day startDate \<le> D \<and> D \<le> Day endDate \<and> isBusinessDay (MakeDate D 0)})"
proof -
  let ?A = "{k::nat. startDate + int k * msPerDay \<le> endDate \<and> isBusinessDay (startDate + int k * msPerDay)}"
  let ?B = "{D. Day startDate \<le> D \<and> D \<le> Day endDate \<and> isBusinessDay (MakeDate D 0)}"
  let ?f = "\<lambda>k::nat. Day startDate + int k"
  have bd: "isBusinessDay (startDate + int k * msPerDay) = isBusinessDay (MakeDate (Day startDate + int k) 0)" for k
    using msPerDay_pos by (intro isBusinessDay_Day) (simp add: Day_add_days Day_MakeDate)
  have "?f ` ?A = ?B"
  proof (intro set_eqI iffI)
    fix D assume "D \<in> ?f ` ?A"
    then show "D \<in> ?B"
      using days_in_interval [OF assms] bd by auto
  next
    fix D assume D: "D \<in> ?B"
    then have "D = ?f (nat (D - Day startDate))" by simp
    moreover have "nat (D - Day startDate) \<in> ?A"
      using D days_in_interval [OF assms, of "nat (D - Day startDate)"] bd [of "nat (D - Day startDate)"]
      by simp
    ultimately show "D \<in> ?f ` ?A" by (rule image_eqI)
  qed
  moreover have "inj_on ?f ?A" by (simp add: inj_on_def)
  ultimately have "card ?B = card ?A"
    using card_image [of ?f ?A] by simp
  then show ?thesis by (simp add: countBusinessDays_card)
qed

lemma scanDays_empty: "lastDay < current \<Longrightarrow> scanDays current lastDay = []"
  by (subst scanDays.simps) simp

lemma scanDays_single: "scanDays d d = [d]"
proof -
  have "\<not> d + msPerDay \<le> d" using msPerDay_pos by simp
  then have "scanDays (d + msPerDay) d = []" by (subst scanDays.simps) simp
  then show ?thesis by (subst scanDays.simps) simp
qed


subsection \<open>Calendar months\<close>

lemma month_cases:
  "0 \<le> (m::int) \<Longrightarrow> m \<le> 11 \<Longrightarrow>
   m = 0 \<or> m = 1 \<or> m = 2 \<or> m = 3 \<or> m = 4 \<or> m = 5 \<or> m = 6 \<or> m = 7 \<or> m = 8 \<or> m = 9 \<or> m = 10 \<or> m = 11"
  by arith

lemma monthStart_bounds:
  assumes "0 \<le> m" "m \<le> 11" "l = 0 \<or> l = 1"
  shows "0 \<le> monthStart l m \<and> monthStart l m + 28 \<le> monthStart l (m + 1) \<and> monthStart l (m + 1) \<le> 365 + l"
  using month_cases [OF assms(1,2)] assms(3) by (auto simp: monthStart_def)

lemma MonthFromTime_decode:
  assumes "0 \<le> m" "m \<le> 11" "InLeapYear t = 0 \<or> InLeapYear t = 1"
    and "monthStart (InLeapYear t) m \<le> DayWithinYear t"
    and "DayWithinYear t < monthStart (InLeapYear t) (m + 1)"
  shows "MonthFromTime t = m"
  using month_cases [OF assms(1,2)] assms(3-5)
  by (elim disjE; simp add: MonthFromTime_def Let_def monthStart_def)

lemma decode_day:
  assumes m: "0 \<le> m" "m \<le> 11"
    and l: "l = (if DaysInYear y = 366 then 1 else 0)"
    and d: "Day t = DayFromYear y + w"
    and w: "monthStart l m \<le> w" "w < monthStart l (m + 1)"
  shows "YearFromTime t = y \<and> MonthFromTime t = m \<and> DateFromTime t = w - monthStart l m + 1"
proof -
  have l01: "l = 0 \<or> l = 1" using l by simp
  note ms = monthStart_bounds [OF m l01]
  have diy: "DaysInYear y = 365 + l"
    using l DaysInYear_cases [of y] by auto
  have "DayFromYear y \<le> Day t" using d w ms by simp
  moreover have "Day t < DayFromYear (y + 1)"
    using d w ms diy by (simp add: DayFromYear_next)
  ultimately have yr: "YearFromTime t = y" by (rule YearFromTime_unique)
  have leap: "InLeapYear t = l" by (simp add: InLeapYear_def yr l)
  have dwy: "DayWithinYear t = w" by (simp add: DayWithinYear_def yr d)
  have mo: "MonthFromTime t = m"
    using m l01 w by (intro MonthFromTime_decode) (simp_all add: leap dwy)
  show ?thesis by (simp add: yr mo DateFromTime_def leap dwy)
qed

lemma Day_newDate: "Day (newDate year month dt) = MakeDay (jsYear year) month dt"
  using msPerDay_pos by (simp add: newDate_def jsYear_def Let_def Day_MakeDate)

lemma TimeWithinDay_newDate: "TimeWithinDay (newDate year month dt) = 0"
  by (simp add: newDate_def Let_def MakeDate_def TimeWithinDay_def)

lemma newDate_add: "newDate year month (dt + k) = newDate year month dt + k * msPerDay"
  by (simp add: newDate_def Let_def MakeDate_def MakeDay_def algebra_simps)

lemma MakeDay_eq:
  "MakeDay yr month dt
     = DayFromYear (yr + month div 12) + monthStart (leapOf (yr + month div 12)) (month mod 12) + dt - 1"
  by (simp add: MakeDay_def Let_def leapOf_def)

lemma mod_succ:
  fixes a k :: int
  assumes "0 < k"
  shows "(a + 1) mod k = (if (a + 1) mod k = 0 then 0 else a mod k + 1)"
    and "(a + 1) mod k = 0 \<Longrightarrow> a mod k = k - 1"
proof -
  have e1: "a + 1 = k * ((a + 1) div k) + (a + 1) mod k" by simp
  have e2: "a = k * (a div k) + a mod k" by simp
  have e3: "(a + 1) div k = a div k + (if (a + 1) mod k = 0 then 1 else 0)"
    by (rule div_succ [OF assms])
  have e4: "k * ((a + 1) div k) = k * (a div k) + (if (a + 1) mod k = 0 then k else 0)"
    unfolding e3 by (simp add: algebra_simps)
  have e4T: "(a + 1) mod k = 0 \<Longrightarrow> k * ((a + 1) div k) = k * (a div k) + k"
    using e4 by simp
  have e4F: "(a + 1) mod k \<noteq> 0 \<Longrightarrow> k * ((a + 1) div k) = k * (a div k)"
    using e4 by simp
  show "(a + 1) mod k = (if (a + 1) mod k = 0 then 0 else a mod k + 1)"
  proof (cases "(a + 1) mod k = 0")
    case True
    then show ?thesis by simp
  next
    case False
    have "(a + 1) mod k = a mod k + 1"
      using e1 e2 e4F [OF False] by linarith
    with False show ?thesis by simp
  qed
  show "a mod k = k - 1" if "(a + 1) mod k = 0"
    using e1 e2 e4T [OF that] that by linarith
qed

lemma MakeDay_next_month:
  "MakeDay yr (month + 1) 1
     = DayFromYear (yr + month div 12) + monthStart (leapOf (yr + month div 12)) (month mod 12 + 1)"
proof (cases "(month + 1) mod 12 = 0")
  case True
  then have mn: "month mod 12 = 11"
    using mod_succ(2) [of 12 month] by simp
  have dv: "(month + 1) div 12 = month div 12 + 1"
    using div_succ [of 12 month] True by simp
  have "DaysInYear (yr + month div 12) = 365 + leapOf (yr + month div 12)"
    using DaysInYear_cases [of "yr + month div 12"] by (auto simp: leapOf_def)
  then show ?thesis
    using DayFromYear_next [of "yr + month div 12"]
    by (simp add: MakeDay_eq True dv mn monthStart_def add.assoc)
next
  case False
  then have mn: "(month + 1) mod 12 = month mod 12 + 1"
    using mod_succ(1) [of 12 month] by simp
  have dv: "(month + 1) div 12 = month div 12"
    using div_succ [of 12 month] False by simp
  show ?thesis
    by (simp add: MakeDay_eq mn dv)
qed

lemma month_length:
  "Day (newDate year (month + 1) 0) - Day (newDate year month 1)
     = monthStart (leapOf (jsYear year + month div 12)) (month mod 12 + 1)
       - monthStart (leapOf (jsYear year + month div 12)) (month mod 12) - 1"
proof -
  have "MakeDay (jsYear year) (month + 1) 0 = MakeDay (jsYear year) (month + 1) 1 - 1"
    by (simp add: MakeDay_eq)
  then show ?thesis
    by (simp add: Day_newDate MakeDay_next_month) (simp add: MakeDay_eq)
qed

lemma month_day_decode:
  assumes "0 \<le> k"
    and "k \<le> Day (newDate year (month + 1) 0) - Day (newDate year month 1)"
    and "Day t = Day (newDate year month 1) + k"
  shows "YearFromTime t = jsYear year + month div 12 \<and> MonthFromTime t = month mod 12
         \<and> DateFromTime t = k + 1"
proof -
  let ?y = "jsYear year + month div 12"
  let ?m = "month mod 12"
  have m: "0 \<le> ?m" "?m \<le> 11" by simp_all
  have d: "Day t = DayFromYear ?y + (monthStart (leapOf ?y) ?m + k)"
    using assms(3) by (simp add: Day_newDate MakeDay_eq)
  have "YearFromTime t = ?y \<and> MonthFromTime t = ?m
        \<and> DateFromTime t = (monthStart (leapOf ?y) ?m + k) - monthStart (leapOf ?y) ?m + 1"
    using assms(1,2) by (intro decode_day [OF m _ d]) (simp_all add: leapOf_def month_length)
  then show ?thesis by simp
qed

lemma month_length_nonneg: "0 \<le> Day (newDate year (month + 1) 0) - Day (newDate year month 1)"
proof -
  have "leapOf (jsYear year + month div 12) = 0 \<or> leapOf (jsYear year + month div 12) = 1"
    by (simp add: leapOf_def)
  moreover have "0 \<le> month mod 12" "month mod 12 \<le> 11" by simp_all
  ultimately show ?thesis
    using monthStart_bounds [of "month mod 12" "leapOf (jsYear year + month div 12)"]
    by (simp add: month_length)
qed

lemma getDate_lastDay:
  "getDate (newDate year (month + 1) 0)
     = Day (newDate year (month + 1) 0) - Day (newDate year month 1) + 1"
  using month_day_decode [OF month_length_nonneg order_refl, of "newDate year (month + 1) 0" year month]
  by (simp add: getDate_def)

lemma midnight_diff:
  "(newDate y' m' d' - newDate y m d) div msPerDay = Day (newDate y' m' d') - Day (newDate y m d)"
proof -
  have "newDate y' m' d' = Day (newDate y' m' d') * msPerDay" "newDate y m d = Day (newDate y m d) * msPerDay"
    using Date_split [of "newDate y' m' d'"] Date_split [of "newDate y m d"]
    by (simp_all add: TimeWithinDay_newDate)
  then have "newDate y' m' d' - newDate y m d = (Day (newDate y' m' d') - Day (newDate y m d)) * msPerDay"
    by (simp add: algebra_simps)
  then show ?thesis using msPerDay_pos by simp
qed

lemma scanDays_month:
  "scanDays (newDate year month 1) (newDate year (month + 1) 0) = daysOfMonth year month"
proof -
  let ?N = "nat (getDate (newDate year (month + 1) 0))"
  have n: "nat ((newDate year (month + 1) 0 - newDate year month 1) div msPerDay + 1) = ?N"
    by (simp add: midnight_diff getDate_lastDay)
  have "map (\<lambda>k. newDate year month (int k)) [1..<Suc ?N]
      = map (\<lambda>k. newDate year month (int k)) (map Suc [0..<?N])"
    by (simp only: map_Suc_upt One_nat_def)
  also have "\<dots> = map (\<lambda>k. newDate year month 1 + int k * msPerDay) [0..<?N]"
  proof -
    have "newDate year month (int (Suc k)) = newDate year month 1 + int k * msPerDay" for k
      using newDate_add [of year month 1 "int k"] by (simp add: add.commute)
    then show ?thesis by simp
  qed
  finally show ?thesis
    by (simp add: daysOfMonth_def scanDays_map n)
qed

lemma in_daysOfMonth:
  assumes "d \<in> set (daysOfMonth year month)"
  shows "getFullYear d = jsYear year + month div 12 \<and> getMonth d = month mod 12
         \<and> TimeWithinDay d = 0 \<and> 1 \<le> getDate d \<and> d = newDate year month (getDate d)
         \<and> newDate year month 1 \<le> d \<and> d \<le> newDate year (month + 1) 0"
proof -
  from assms obtain k :: nat
    where kin: "k \<in> set [1..<Suc (nat (getDate (newDate year (month + 1) 0)))]"
      and d: "d = newDate year month (int k)"
    unfolding daysOfMonth_def set_map by blast
  from kin have k: "1 \<le> k" "int k \<le> getDate (newDate year (month + 1) 0)"
    by (simp_all del: upt_Suc) arith
  have e: "d = newDate year month 1 + (int k - 1) * msPerDay"
    using newDate_add [of year month 1 "int k - 1"] by (simp add: d)
  then have Dd: "Day d = Day (newDate year month 1) + (int k - 1)"
    by (simp only: Day_add_days)
  then have dec: "YearFromTime d = jsYear year + month div 12 \<and> MonthFromTime d = month mod 12
         \<and> DateFromTime d = (int k - 1) + 1"
    using k by (intro month_day_decode) (simp_all add: getDate_lastDay)
  have tw: "TimeWithinDay d = 0" by (simp add: d TimeWithinDay_newDate)
  have lo: "newDate year month 1 \<le> d"
    using e k msPerDay_pos by simp
  have hi: "d \<le> newDate year (month + 1) 0"
  proof -
    have "Day d \<le> Day (newDate year (month + 1) 0)"
      using Dd k by (simp add: getDate_lastDay)
    then have "Day d * msPerDay \<le> Day (newDate year (month + 1) 0) * msPerDay"
      using msPerDay_pos by simp
    moreover have "newDate year (month + 1) 0 = Day (newDate year (month + 1) 0) * msPerDay"
      using Date_split [of "newDate year (month + 1) 0"] by (simp add: TimeWithinDay_newDate)
    moreover have "d = Day d * msPerDay"
      using Date_split [of d] by (simp add: tw)
    ultimately show ?thesis by simp
  qed
  show ?thesis
    using dec tw lo hi k d by (simp add: getFullYear_def getMonth_def getDate_def)
qed

lemma nth_filter_running:
  "k < length (filter P xs) \<Longrightarrow>
   \<exists>i<length xs. xs ! i = filter P xs ! k \<and> P (xs ! i)
     \<and> length (filter P (take (Suc i) xs)) = Suc k
     \<and> (\<forall>j<i. length (filter P (take (Suc j) xs)) \<le> k)"
proof (induction xs arbitrary: k)
  case Nil
  then show ?case by simp
next
  case (Cons x xs)
  show ?case
  proof (cases "P x \<and> k = 0")
    case True
    then show ?thesis by (intro exI [of _ 0]) simp
  next
    case False
    define k' where "k' = (if P x then k - 1 else k)"
    have k': "k' < length (filter P xs)"
      using Cons.prems False by (auto simp: k'_def)
    have nth: "filter P (x # xs) ! k = filter P xs ! k'"
      using False by (cases k) (auto simp: k'_def)
    from Cons.IH [OF k'] obtain i where i: "i < length xs" "xs ! i = filter P xs ! k'" "P (xs ! i)"
        "length (filter P (take (Suc i) xs)) = Suc k'"
        "\<forall>j<i. length (filter P (take (Suc j) xs)) \<le> k'"
      by blast
    have cnt: "length (filter P (take (Suc (Suc j)) (x # xs)))
                 = (if P x then Suc (length (filter P (take (Suc j) xs))) else length (filter P (take (Suc j) xs)))" for j
      by simp
    have kk: "(if P x then Suc k' else k') = k"
      using False by (auto simp: k'_def)
    have "\<forall>j<Suc i. length (filter P (take (Suc j) (x # xs))) \<le> k"
    proof (intro allI impI)
      fix j assume j: "j < Suc i"
      show "length (filter P (take (Suc j) (x # xs))) \<le> k"
      proof (cases j)
        case 0
        then show ?thesis using False by auto
      next
        case (Suc j')
        then have "length (filter P (take (Suc j') xs)) \<le> k'" using i(5) j by simp
        then show ?thesis unfolding Suc cnt using kk by auto
      qed
    qed
    moreover have "length (filter P (take (Suc (Suc i)) (x # xs))) = Suc k"
      unfolding cnt using i(4) kk by auto
    ultimately show ?thesis
      using i(1,2,3) nth by (intro exI [of _ "Suc i"]) simp
  qed
qed

lemma getNthBusinessDayOfMonth_days:
  "getNthBusinessDayOfMonth year month n =
     (if 1 \<le> n \<and> n \<le> int (length (filter isBusinessDay (daysOfMonth year month)))
      then Some (filter isBusinessDay (daysOfMonth year month) ! nat (n - 1))
      else None)"
  by (simp add: getNthBusinessDayOfMonth_scan scanDays_month Let_def)

lemma getNthBusinessDayOfMonth_in_month:
  assumes "getNthBusinessDayOfMonth year month n = Some d"
  shows "d \<in> set (daysOfMonth year month) \<and> isBusinessDay d"
proof -
  let ?bs = "filter isBusinessDay (daysOfMonth year month)"
  from assms have r: "1 \<le> n \<and> n \<le> int (length ?bs)" and d: "d = ?bs ! nat (n - 1)"
    by (simp_all add: getNthBusinessDayOfMonth_days split: if_splits)
  from r have "nat (n - 1) < length ?bs" by auto
  then have "d \<in> set ?bs" unfolding d by (rule nth_mem)
  then show ?thesis by simp
qed

lemma sorted_getBusinessDaysOfMonth: "sorted_wrt (<) (getBusinessDaysOfMonth year month)"
  unfolding getBusinessDaysOfMonth_scan by (intro sorted_wrt_filter sorted_scanDays)


subsection \<open>Facts about formatting and reading back\<close>

lemma digit_cases:
  "0 \<le> (k::int) \<Longrightarrow> k < 10 \<Longrightarrow> k \<in> {0, 1, 2, 3, 4, 5, 6, 7, 8, 9}"
  by simp arith

lemma digitChar_props:
  assumes "0 \<le> n" "n < 10"
  shows "isDigit (digitChar n) \<and> digitValue (digitChar n) = n \<and> digitChar n \<noteq> CHR ''/''
         \<and> digitChar n \<noteq> CHR ''-'' \<and> digitChar n \<noteq> CHR ''+''"
  using digit_cases [OF assms]
  by (auto simp: digitChar_def isDigit_def digitValue_def)

lemma parseDigits_digitsToString:
  "0 \<le> n \<Longrightarrow> parseDigits (digitsToString n @ ys) 0 = parseDigits ys n"
proof (induction n arbitrary: ys rule: digitsToString.induct)
  case (1 n)
  show ?case
  proof (cases "n < 10")
    case True
    then show ?thesis
      using digitChar_props [of n] "1.prems" by (subst digitsToString.simps) simp
  next
    case False
    have nn: "0 \<le> n div 10" using "1.prems" by simp
    have md: "0 \<le> n mod 10" "n mod 10 < 10" by simp_all
    have "parseDigits (digitsToString n @ ys) 0
        = parseDigits (digitsToString (n div 10) @ (digitChar (n mod 10) # ys)) 0"
      using False by (subst digitsToString.simps) simp
    also have "\<dots> = parseDigits (digitChar (n mod 10) # ys) (n div 10)"
      using "1.IH" [OF False nn] by simp
    also have "\<dots> = parseDigits ys (n div 10 * 10 + n mod 10)"
      using digitChar_props [OF md] by simp
    finally show ?thesis by simp
  qed
qed

lemma digitsToString_chars:
  "0 \<le> n \<Longrightarrow> digitsToString n \<noteq> [] \<and> CHR ''/'' \<notin> set (digitsToString n)
     \<and> hd (digitsToString n) \<noteq> CHR ''-'' \<and> hd (digitsToString n) \<noteq> CHR ''+''"
proof (induction n rule: digitsToString.induct)
  case (1 n)
  show ?case
  proof (cases "n < 10")
    case True
    then show ?thesis
      using digitChar_props [of n] "1.prems" by (subst (1 2 3 4) digitsToString.simps) auto
  next
    case False
    have nn: "0 \<le> n div 10" using "1.prems" by simp
    have md: "0 \<le> n mod 10" "n mod 10 < 10" by simp_all
    have e: "digitsToString n = digitsToString (n div 10) @ [digitChar (n mod 10)]"
      using False by (subst digitsToString.simps) simp
    show ?thesis
      unfolding e using "1.IH" [OF False nn] digitChar_props [OF md] by auto
  qed
qed

lemma Number_digits:
  assumes "s \<noteq> []" "hd s \<noteq> CHR ''-''" "hd s \<noteq> CHR ''+''"
  shows "Number s = parseDigits s 0"
  using assms by (cases s) (simp_all add: Number_def)

lemma Number_numberToString: "Number (numberToString n) = Some n"
proof (cases "n < 0")
  case True
  then have "0 \<le> - n" by simp
  then show ?thesis
    using True parseDigits_digitsToString [of "- n" "[]"] digitsToString_chars [of "- n"]
    by (simp add: numberToString_def Number_def)
next
  case False
  then have nn: "0 \<le> n" by simp
  have "Number (digitsToString n) = parseDigits (digitsToString n) 0"
    using digitsToString_chars [OF nn] by (intro Number_digits) simp_all
  then show ?thesis
    using False parseDigits_digitsToString [OF nn, of "[]"] by (simp add: numberToString_def)
qed

lemma Number_padStart2:
  assumes "0 \<le> n"
  shows "Number (padStart2 (numberToString n)) = Some n"
proof -
  let ?s = "digitsToString n"
  have s: "numberToString n = ?s" using assms by (simp add: numberToString_def)
  note c = digitsToString_chars [OF assms]
  have p: "parseDigits ?s 0 = Some n"
    using parseDigits_digitsToString [OF assms, of "[]"] by simp
  show ?thesis
  proof (cases "2 - length ?s = 0")
    case True
    then have "padStart2 ?s = ?s" by (simp add: padStart2_def)
    moreover have "Number ?s = parseDigits ?s 0"
      using c by (intro Number_digits) simp_all
    ultimately show ?thesis using p s by simp
  next
    case False
    then have "length ?s < 2" by simp
    moreover have "length ?s \<noteq> 0" using c by simp
    ultimately have "2 - length ?s = Suc 0" by arith
    then have e: "padStart2 ?s = CHR ''0'' # ?s" by (simp add: padStart2_def)
    have "Number (CHR ''0'' # ?s) = parseDigits (CHR ''0'' # ?s) 0"
      by (simp add: Number_def)
    also have "\<dots> = parseDigits ?s 0"
      by (simp add: isDigit_def digitValue_def)
    finally show ?thesis using p s e by simp
  qed
qed

lemma no_slash_numberToString: "CHR ''/'' \<notin> set (numberToString n)"
proof (cases "n < 0")
  case True
  then have "0 \<le> - n" by simp
  from digitsToString_chars [OF this] True show ?thesis by (simp add: numberToString_def)
next
  case False
  then have "0 \<le> n" by simp
  from digitsToString_chars [OF this] False show ?thesis by (simp add: numberToString_def)
qed

lemma no_slash_padStart2: "CHR ''/'' \<notin> set s \<Longrightarrow> CHR ''/'' \<notin> set (padStart2 s)"
  by (simp add: padStart2_def)

lemma splitOn_no_sep: "c \<notin> set s \<Longrightarrow> splitOn c s = [s]"
  by (induction s) auto

lemma splitOn_append: "c \<notin> set a \<Longrightarrow> splitOn c (a @ c # rest) = a # splitOn c rest"
  by (induction a) (auto split: list.splits)

lemma parseDate_formatDate:
  assumes "1 \<le> getDate d" "0 \<le> getMonth d"
  shows "parseDate (formatDate d) = Some (newDate (getFullYear d) (getMonth d) (getDate d))"
proof -
  let ?a = "padStart2 (numberToString (getDate d))"
  let ?b = "padStart2 (numberToString (getMonth d + 1))"
  let ?c = "numberToString (getFullYear d)"
  have f: "formatDate d = ?a @ CHR ''/'' # (?b @ CHR ''/'' # ?c)"
    by (simp add: formatDate_def Let_def)
  have "splitOn (CHR ''/'') (formatDate d) = [?a, ?b, ?c]"
    unfolding f
    by (simp add: splitOn_append splitOn_no_sep no_slash_padStart2 no_slash_numberToString)
  moreover have "Number ?a = Some (getDate d)" using assms by (intro Number_padStart2) simp
  moreover have "Number ?b = Some (getMonth d + 1)" using assms by (intro Number_padStart2) simp
  moreover have "Number ?c = Some (getFullYear d)" by (rule Number_numberToString)
  ultimately show ?thesis by (simp add: parseDate_def)
qed

lemma newDate_of_parts:
  assumes "getFullYear d < 0 \<or> 99 < getFullYear d"
  shows "newDate (getFullYear d) (getMonth d) (getDate d) = setHours0 d"
  using assms MakeDay_decompose [of d "DateFromTime d"]
  by (auto simp: newDate_def Let_def setHours0_def getFullYear_def getMonth_def getDate_def)

subsection \<open>Facts about the payment dates\<close>

lemma month_index_parts:
  "0 \<le> (m::int) \<Longrightarrow> m \<le> 11 \<Longrightarrow> (a * 12 + m) div 12 = a \<and> (a * 12 + m) mod 12 = m"
  by simp

lemma mesesLoop_entradas:
  assumes "0 \<le> m" "m \<le> 11" "0 \<le> mF" "mF \<le> 11"
  shows "mesesLoop inicio fin dias now mF aF m a c acc
           = acc @ entradas now c (pagosDelPeriodo inicio fin dias (a * 12 + m) (aF * 12 + mF))"
  using assms
proof (induction inicio fin dias now mF aF m a c acc rule: mesesLoop.induct)
  case (1 inicio fin dias now mF aF m a c acc)
  let ?I = "a * 12 + m" and ?J = "aF * 12 + mF"
  let ?m' = "if m + 1 > 11 then 0 else m + 1" and ?a' = "if m + 1 > 11 then a + 1 else a"
  have cond: "(a < aF \<or> (a = aF \<and> m \<le> mF)) \<longleftrightarrow> ?I \<le> ?J"
    using "1.prems" by arith
  show ?case
  proof (cases "?I \<le> ?J")
    case False
    then have "pagosDelPeriodo inicio fin dias ?I ?J = []"
      by (simp add: pagosDelPeriodo_def)
    moreover have "\<not> (a < aF \<or> (a = aF \<and> m \<le> mF))"
      using False cond by simp
    ultimately show ?thesis
      by (subst mesesLoop.simps) (simp only: if_False append_Nil2 entradas.simps)
  next
    case True
    have c': "a < aF \<or> (a = aF \<and> m \<le> mF)" using True cond by simp
    have nxt: "?a' * 12 + ?m' = ?I + 1" "0 \<le> ?m'" "?m' \<le> 11"
      using "1.prems" by auto
    have up: "[?I..?J] = ?I # [?I + 1..?J]" using True by (rule upto_rec1)
    note parts = month_index_parts [OF "1.prems"(1,2), of a]
    show ?thesis
    proof (cases "pagoDelMes inicio fin dias a m")
      case None
      have "mesesLoop inicio fin dias now mF aF m a c acc
              = mesesLoop inicio fin dias now mF aF ?m' ?a' c acc"
        using c' None by (subst mesesLoop.simps) simp
      also have "\<dots> = acc @ entradas now c (pagosDelPeriodo inicio fin dias (?a' * 12 + ?m') ?J)"
        using "1.IH"(1) [OF c' None nxt(2,3) "1.prems"(3,4)] .
      also have "pagosDelPeriodo inicio fin dias (?a' * 12 + ?m') ?J = pagosDelPeriodo inicio fin dias ?I ?J"
        unfolding nxt(1) pagosDelPeriodo_def up using None parts by simp
      finally show ?thesis .
    next
      case (Some d)
      have "mesesLoop inicio fin dias now mF aF m a c acc
              = mesesLoop inicio fin dias now mF aF ?m' ?a' (c + 1) (acc @ [entradaPago now c d])"
        using c' Some by (subst mesesLoop.simps) simp
      also have "\<dots> = (acc @ [entradaPago now c d])
                         @ entradas now (c + 1) (pagosDelPeriodo inicio fin dias (?a' * 12 + ?m') ?J)"
        using "1.IH"(2) [OF c' Some nxt(2,3) "1.prems"(3,4)] .
      also have "\<dots> = acc @ entradas now c (d # pagosDelPeriodo inicio fin dias (?a' * 12 + ?m') ?J)"
        by simp
      also have "d # pagosDelPeriodo inicio fin dias (?a' * 12 + ?m') ?J = pagosDelPeriodo inicio fin dias ?I ?J"
        unfolding nxt(1) pagosDelPeriodo_def up using Some parts by simp
      finally show ?thesis .
    qed
  qed
qed

lemma calcular_structure:
  "calcularFechasConDiasHabiles now inicio fin dias
     = marcarPrimeraFutura (setHours0 now)
         (entradas now 1 (pagosDelPeriodo inicio fin dias (indiceMes inicio) (indiceMes fin)))"
  using MonthFromTime_range [of inicio] MonthFromTime_range [of fin]
  by (simp add: calcularFechasConDiasHabiles_def Let_def indiceMes_def getMonth_def mesesLoop_entradas)

lemma length_entradas: "length (entradas now c ds) = length ds"
  by (induction ds arbitrary: c) simp_all

lemma nth_entradas:
  "j < length ds \<Longrightarrow> entradas now c ds ! j = entradaPago now (c + int j) (ds ! j)"
proof (induction ds arbitrary: c j)
  case Nil
  then show ?case by simp
next
  case (Cons d ds)
  then show ?case by (cases j) (simp_all add: algebra_simps)
qed

lemma entradas_map:
  "entradas now c ds = map (\<lambda>j. entradaPago now (c + int j) (ds ! j)) [0..<length ds]"
  by (rule nth_equalityI) (simp_all add: length_entradas nth_entradas)

lemma marcar_futura:
  "marcarPrimeraFutura hoy (f # fs)
     = (if futura hoy f then f\<lparr>estado := Success\<rparr> # fs else f # marcarPrimeraFutura hoy fs)"
  by (simp add: futura_def)

lemma length_marcar: "length (marcarPrimeraFutura hoy fs) = length fs"
  by (induction fs) (simp_all only: marcarPrimeraFutura.simps(1) marcar_futura list.size split: if_splits, simp_all)

lemma marcar_nth:
  "j < length fs \<Longrightarrow>
   marcarPrimeraFutura hoy fs ! j
     = (if futura hoy (fs ! j) \<and> (\<forall>k<j. \<not> futura hoy (fs ! k))
        then (fs ! j)\<lparr>estado := Success\<rparr> else fs ! j)"
proof (induction fs arbitrary: j)
  case Nil
  then show ?case by simp
next
  case (Cons f fs)
  show ?case
  proof (cases j)
    case 0
    then show ?thesis by (simp only: marcar_futura) simp
  next
    case (Suc j')
    then have j': "j' < length fs" using Cons.prems by simp
    have all: "(\<forall>k<Suc j'. \<not> futura hoy ((f # fs) ! k))
                 \<longleftrightarrow> (\<not> futura hoy f \<and> (\<forall>k<j'. \<not> futura hoy (fs ! k)))"
      by (auto simp: less_Suc_eq_0_disj)
    show ?thesis
    proof (cases "futura hoy f")
      case True
      then show ?thesis unfolding Suc by (simp only: marcar_futura all) simp
    next
      case False
      then show ?thesis
        unfolding Suc using Cons.IH [OF j'] by (simp only: marcar_futura all) auto
    qed
  qed
qed

lemma jsYear_range: "jsYear a < 0 \<or> 99 < jsYear a"
  by (auto simp: jsYear_def)

lemma in_set_map_filter: "y \<in> set (List.map_filter f xs) \<longleftrightarrow> (\<exists>x\<in>set xs. f x = Some y)"
  by (induction xs) (auto split: option.splits)

lemma pago_props:
  assumes "getNthBusinessDayOfMonth a m dias = Some d" "0 \<le> m" "m \<le> 11"
  shows "TimeWithinDay d = 0 \<and> getFullYear d = jsYear a \<and> getMonth d = m"
proof -
  have "d \<in> set (daysOfMonth a m)"
    using getNthBusinessDayOfMonth_in_month [OF assms(1)] by simp
  from in_daysOfMonth [OF this] assms(2,3) show ?thesis by simp
qed

lemma pagos_member:
  assumes "d \<in> set (pagosDelPeriodo inicio fin dias i j)"
  shows "\<exists>k. i \<le> k \<and> k \<le> j \<and> getNthBusinessDayOfMonth (k div 12) (k mod 12) dias = Some d
             \<and> inicio \<le> d \<and> d \<le> fin"
proof -
  from assms obtain k where "k \<in> set [i..j]"
      and "pagoDelMes inicio fin dias (k div 12) (k mod 12) = Some d"
    by (auto simp: pagosDelPeriodo_def in_set_map_filter)
  then show ?thesis
    by (intro exI [of _ k]) (auto simp: pagoDelMes_def split: option.splits if_splits)
qed

lemma pagos_props:
  assumes "d \<in> set (pagosDelPeriodo inicio fin dias i j)"
  shows "TimeWithinDay d = 0 \<and> (getFullYear d < 0 \<or> 99 < getFullYear d)
         \<and> inicio \<le> d \<and> d \<le> fin"
proof -
  from pagos_member [OF assms] obtain k
    where k: "getNthBusinessDayOfMonth (k div 12) (k mod 12) dias = Some d" "inicio \<le> d" "d \<le> fin"
    by blast
  have "0 \<le> k mod 12" "k mod 12 \<le> 11" by simp_all
  from pago_props [OF k(1) this] jsYear_range [of "k div 12"] k(2,3) show ?thesis by simp
qed

lemma setHours0_midnight: "TimeWithinDay d = 0 \<Longrightarrow> setHours0 d = d"
  using Date_split [of d] by (simp add: setHours0_def MakeDate_def)

lemma Day_setHours0: "Day (setHours0 t) = Day t"
  using msPerDay_pos by (simp add: setHours0_def Day_MakeDate)

lemma setHours0_eq: "setHours0 t = Day t * msPerDay"
  by (simp add: setHours0_def MakeDate_def)

lemma fecha_entradaPago: "fecha (entradaPago now c d) = formatDate d"
  by (simp add: entradaPago_def Let_def)

lemma id_entradaPago: "id' (entradaPago now c d) = c"
  by (simp add: entradaPago_def Let_def)

lemma parse_entradaPago:
  assumes "TimeWithinDay d = 0" "getFullYear d < 0 \<or> 99 < getFullYear d"
  shows "parseDate (fecha (entradaPago now c d)) = Some d"
proof -
  have "1 \<le> getDate d" "0 \<le> getMonth d"
    using DateFromTime_pos [of d] MonthFromTime_range [of d] by (simp_all add: getDate_def getMonth_def)
  then have "parseDate (formatDate d) = Some (newDate (getFullYear d) (getMonth d) (getDate d))"
    by (rule parseDate_formatDate)
  then show ?thesis
    using newDate_of_parts [OF assms(2)] setHours0_midnight [OF assms(1)]
    by (simp add: fecha_entradaPago)
qed

lemma dias_hasta:
  "fst (calcularDiasHastaFecha now d) = Day d - Day now"
proof -
  have "- (setHours0 d - setHours0 now) = (Day now - Day d) * msPerDay"
    by (simp add: setHours0_eq algebra_simps)
  then have "(- (setHours0 d - setHours0 now)) div msPerDay = Day now - Day d"
    using msPerDay_pos by simp
  then show ?thesis by (simp add: calcularDiasHastaFecha_def Let_def)
qed

lemma estado_entradaPago:
  "estado (entradaPago now c d)
     = (if Day now \<le> Day d \<and> Day d \<le> Day now + 10 then Warning else Normal)"
  by (auto simp: entradaPago_def Let_def dias_hasta)

lemma midnight_le:
  assumes "TimeWithinDay d = 0"
  shows "setHours0 now + k * msPerDay \<le> d \<longleftrightarrow> Day now + k \<le> Day d"
    and "d \<le> setHours0 now + k * msPerDay \<longleftrightarrow> Day d \<le> Day now + k"
proof -
  have d: "d = Day d * msPerDay" using Date_split [of d] assms by simp
  have e: "setHours0 now + k * msPerDay = (Day now + k) * msPerDay"
    by (simp add: setHours0_eq algebra_simps)
  show "setHours0 now + k * msPerDay \<le> d \<longleftrightarrow> Day now + k \<le> Day d"
    unfolding e by (subst d) (use msPerDay_pos in simp)
  show "d \<le> setHours0 now + k * msPerDay \<longleftrightarrow> Day d \<le> Day now + k"
    unfolding e by (subst d) (use msPerDay_pos in simp)
qed

lemma estado_entradaPago_midnight:
  assumes "TimeWithinDay d = 0"
  shows "estado (entradaPago now c d)
     = (if setHours0 now \<le> d \<and> d \<le> setHours0 now + 10 * msPerDay then Warning else Normal)"
  using midnight_le(1) [OF assms, of now 0] midnight_le(2) [OF assms, of now 10]
  by (simp add: estado_entradaPago)

lemma pila_dias:
  "calcularFechasPagoPila now nit inicio fin
     = calcularFechasConDiasHabiles now inicio fin (getDiasHabilesPago nit)"
  by (simp add: calcularFechasPagoPila_def getDiasHabilesPago_def split: option.splits)

lemma futura_entrada:
  assumes "TimeWithinDay d = 0" "getFullYear d < 0 \<or> 99 < getFullYear d"
  shows "futura hoy (entradaPago now c d) \<longleftrightarrow> hoy \<le> d"
  by (simp add: futura_def parse_entradaPago [OF assms])

lemma result_nth:
  assumes ds: "ds = pagosDelPeriodo inicio fin dias (indiceMes inicio) (indiceMes fin)"
    and r: "r = calcularFechasConDiasHabiles now inicio fin dias"
    and j: "j < length ds"
  shows "parseDate (fecha (r ! j)) = Some (ds ! j)"
    and "id' (r ! j) = 1 + int j"
    and "estado (r ! j)
          = (if setHours0 now \<le> ds ! j \<and> (\<forall>k<j. ds ! k < setHours0 now) then Success
             else if setHours0 now \<le> ds ! j \<and> ds ! j \<le> setHours0 now + 10 * msPerDay then Warning
             else Normal)"
proof -
  let ?hoy = "setHours0 now"
  let ?es = "entradas now 1 ds"
  have r': "r = marcarPrimeraFutura ?hoy ?es"
    by (simp add: r ds calcular_structure)
  have props: "TimeWithinDay (ds ! k) = 0 \<and> (getFullYear (ds ! k) < 0 \<or> 99 < getFullYear (ds ! k))"
    if "k < length ds" for k
  proof -
    have "ds ! k \<in> set (pagosDelPeriodo inicio fin dias (indiceMes inicio) (indiceMes fin))"
      using that ds by simp
    from pagos_props [OF this] show ?thesis by simp
  qed
  have es: "?es ! k = entradaPago now (1 + int k) (ds ! k)" if "k < length ds" for k
    using that by (rule nth_entradas)
  have fut: "futura ?hoy (?es ! k) \<longleftrightarrow> ?hoy \<le> ds ! k" if "k < length ds" for k
    using props [OF that] by (simp add: es [OF that] futura_entrada)
  have first: "(\<forall>k<j. \<not> futura ?hoy (?es ! k)) \<longleftrightarrow> (\<forall>k<j. ds ! k < ?hoy)"
    using fut j by (auto simp: not_le)
  have rj: "r ! j = (if ?hoy \<le> ds ! j \<and> (\<forall>k<j. ds ! k < ?hoy)
                     then (?es ! j)\<lparr>estado := Success\<rparr> else ?es ! j)"
  proof -
    have "j < length ?es" using j by (simp add: length_entradas)
    from marcar_nth [OF this, of ?hoy] show ?thesis
      unfolding r' fut [OF j] first .
  qed
  show "parseDate (fecha (r ! j)) = Some (ds ! j)"
    using props [OF j] by (simp add: rj es [OF j] parse_entradaPago)
  show "id' (r ! j) = 1 + int j"
    by (simp add: rj es [OF j] id_entradaPago)
  show "estado (r ! j)
          = (if ?hoy \<le> ds ! j \<and> (\<forall>k<j. ds ! k < ?hoy) then Success
             else if ?hoy \<le> ds ! j \<and> ds ! j \<le> ?hoy + 10 * msPerDay then Warning
             else Normal)"
    using props [OF j] by (simp add: rj es [OF j] estado_entradaPago_midnight)
qed

lemma result_length:
  "length (calcularFechasConDiasHabiles now inicio fin dias)
     = length (pagosDelPeriodo inicio fin dias (indiceMes inicio) (indiceMes fin))"
  by (simp add: calcular_structure length_marcar length_entradas)

lemma result_fechas:
  "map fechaDe (calcularFechasConDiasHabiles now inicio fin dias)
     = pagosDelPeriodo inicio fin dias (indiceMes inicio) (indiceMes fin)"
  by (rule nth_equalityI)
     (simp_all add: result_length fechaDe_def result_nth(1) [OF refl refl])

lemma at_most_one:
  assumes "\<And>i j. i < j \<Longrightarrow> j < length xs \<Longrightarrow> P (xs ! i) \<Longrightarrow> P (xs ! j) \<Longrightarrow> False"
  shows "length (filter P xs) \<le> 1"
proof -
  have "\<forall>a\<in>{i. i < length xs \<and> P (xs ! i)}. \<forall>b\<in>{i. i < length xs \<and> P (xs ! i)}. a = b"
  proof (intro ballI)
    fix a b assume "a \<in> {i. i < length xs \<and> P (xs ! i)}" "b \<in> {i. i < length xs \<and> P (xs ! i)}"
    then show "a = b"
      using assms [of a b] assms [of b a] by (cases a b rule: linorder_cases) auto
  qed
  then have "card {i. i < length xs \<and> P (xs ! i)} \<le> Suc 0"
    by (subst card_le_Suc0_iff_eq) simp_all
  then show ?thesis by (simp add: length_filter_conv_card)
qed


lemma getMonth_range: "0 \<le> getMonth t \<and> getMonth t \<le> 11"
  using MonthFromTime_range [of t] by (simp add: getMonth_def)

lemma mesEnPeriodo_indice:
  assumes "0 \<le> mes" "mes \<le> 11"
  shows "mesEnPeriodo inicio fin anio mes
           \<longleftrightarrow> indiceMes inicio \<le> anio * 12 + mes \<and> anio * 12 + mes \<le> indiceMes fin"
  using assms getMonth_range [of inicio] getMonth_range [of fin]
  unfolding mesEnPeriodo_def indiceMes_def by arith

lemma month_start_step: "MakeDay 0 k 1 + 28 \<le> MakeDay 0 (k + 1) 1"
proof -
  have "leapOf (k div 12) = 0 \<or> leapOf (k div 12) = 1" by (simp add: leapOf_def)
  moreover have "0 \<le> k mod 12" "k mod 12 \<le> 11" by simp_all
  ultimately show ?thesis
    using monthStart_bounds [of "k mod 12" "leapOf (k div 12)"] MakeDay_next_month [of 0 k]
    by (simp add: MakeDay_eq)
qed

lemma month_start_mono: "k \<le> k' \<Longrightarrow> MakeDay 0 k 1 \<le> MakeDay 0 k' 1"
proof (induction k' rule: int_ge_induct)
  case base
  then show ?case by simp
next
  case (step i)
  then show ?case using month_start_step [of i] by simp
qed

lemma month_of_date:
  "MakeDay 0 (indiceMes t) 1 \<le> Day t \<and> Day t < MakeDay 0 (indiceMes t + 1) 1"
proof -
  note r = MonthFromTime_range [of t]
  have p: "(YearFromTime t * 12 + MonthFromTime t) div 12 = YearFromTime t"
          "(YearFromTime t * 12 + MonthFromTime t) mod 12 = MonthFromTime t"
    using month_index_parts [of "MonthFromTime t" "YearFromTime t"] r by simp_all
  have l: "leapOf (YearFromTime t) = InLeapYear t"
    by (simp add: leapOf_def InLeapYear_def)
  have d: "Day t = DayFromYear (YearFromTime t) + DayWithinYear t"
    by (simp add: DayWithinYear_def)
  have mm: "MonthFromTime t mod 12 = MonthFromTime t" "MonthFromTime t div 12 = 0"
    using r by simp_all
  have i: "indiceMes t = YearFromTime t * 12 + MonthFromTime t"
    by (simp add: indiceMes_def getFullYear_def getMonth_def)
  have a: "MakeDay 0 (indiceMes t) 1
             = DayFromYear (YearFromTime t) + monthStart (InLeapYear t) (MonthFromTime t)"
    unfolding i MakeDay_eq by (simp add: p l mm)
  have b: "MakeDay 0 (indiceMes t + 1) 1
             = DayFromYear (YearFromTime t) + monthStart (InLeapYear t) (MonthFromTime t + 1)"
    unfolding i MakeDay_next_month by (simp add: p l mm)
  show ?thesis
    unfolding a b d using MonthFromTime_bounds [of t] by simp
qed

lemma month_index_mono:
  assumes "indiceMes t < indiceMes t'"
  shows "t < t'"
proof -
  have "Day t < MakeDay 0 (indiceMes t + 1) 1" using month_of_date [of t] by simp
  also have "\<dots> \<le> MakeDay 0 (indiceMes t') 1" using assms by (intro month_start_mono) simp
  also have "\<dots> \<le> Day t'" using month_of_date [of t'] by simp
  finally have "Day t + 1 \<le> Day t'" by simp
  then have "Day t * 86400000 + 86400000 \<le> Day t' * 86400000" by simp
  moreover have "t = Day t * 86400000 + TimeWithinDay t" "t' = Day t' * 86400000 + TimeWithinDay t'"
    using Date_split [of t] Date_split [of t'] by (simp_all add: msPerDay_def)
  moreover have "TimeWithinDay t < 86400000" "0 \<le> TimeWithinDay t'"
    using TimeWithinDay_range [of t] TimeWithinDay_range [of t'] by (simp_all add: msPerDay_def)
  ultimately show ?thesis by linarith
qed

lemma pago_indice:
  assumes "pagoDelMes inicio fin dias (k div 12) (k mod 12) = Some d" "1200 \<le> k"
  shows "indiceMes d = k"
proof -
  from assms(1) have g: "getNthBusinessDayOfMonth (k div 12) (k mod 12) dias = Some d"
    by (auto simp: pagoDelMes_def split: option.splits if_splits)
  have m: "0 \<le> k mod 12" "k mod 12 \<le> 11" by simp_all
  have "100 \<le> k div 12" using assms(2) by simp
  then have "jsYear (k div 12) = k div 12" by (simp add: jsYear_def)
  with pago_props [OF g m] show ?thesis by (simp add: indiceMes_def)
qed

lemma sorted_map_filter_key:
  assumes "sorted_wrt (<) xs" "\<And>x y. x \<in> set xs \<Longrightarrow> f x = Some y \<Longrightarrow> key y = x"
  shows "sorted_wrt (\<lambda>a b. key a < (key b :: int)) (List.map_filter f xs)"
  using assms
proof (induction xs)
  case Nil
  then show ?case by simp
next
  case (Cons x xs)
  have ih: "sorted_wrt (\<lambda>a b. key a < key b) (List.map_filter f xs)"
    using Cons by simp
  show ?case
  proof (cases "f x")
    case None
    then show ?thesis using ih by simp
  next
    case (Some y)
    have "key y < key z" if "z \<in> set (List.map_filter f xs)" for z
    proof -
      from that obtain x' where x': "x' \<in> set xs" "f x' = Some z"
        by (auto simp: in_set_map_filter)
      then have "key z = x'" using Cons.prems(2) by simp
      moreover have "key y = x" using Cons.prems(2) Some by simp
      moreover have "x < x'" using Cons.prems(1) x'(1) by simp
      ultimately show ?thesis by simp
    qed
    then show ?thesis using Some ih by simp
  qed
qed

lemma filter_map_filter_key:
  assumes "distinct xs" "\<And>x y. x \<in> set xs \<Longrightarrow> f x = Some y \<Longrightarrow> key y = x"
  shows "filter (\<lambda>y. key y = k) (List.map_filter f xs)
           = (if k \<in> set xs then (case f k of None \<Rightarrow> [] | Some y \<Rightarrow> [y]) else [])"
  using assms
proof (induction xs)
  case Nil
  then show ?case by simp
next
  case (Cons x xs)
  have ih: "filter (\<lambda>y. key y = k) (List.map_filter f xs)
           = (if k \<in> set xs then (case f k of None \<Rightarrow> [] | Some y \<Rightarrow> [y]) else [])"
    using Cons by simp
  show ?case
  proof (cases "f x")
    case None
    then show ?thesis using ih by auto
  next
    case (Some y)
    have ky: "key y = x" using Cons.prems(2) Some by simp
    show ?thesis
    proof (cases "k = x")
      case True
      then have "k \<notin> set xs" using Cons.prems(1) by simp
      then show ?thesis using ih Some ky True by simp
    next
      case False
      then show ?thesis using ih Some ky by auto
    qed
  qed
qed


subsection \<open>Years that the Date constructor takes as they are\<close>

lemma newDate_full_year:
  "year < 0 \<or> 99 < year \<Longrightarrow> newDate year month dt = MakeDate (MakeDay year month dt) 0"
  by (auto simp: newDate_def Let_def)

lemma daysOfMonth_calendarDays:
  "year < 0 \<or> 99 < year \<Longrightarrow> daysOfMonth year month = calendarDays year month"
  by (simp add: daysOfMonth_def calendarDays_def newDate_full_year)

lemma jsYear_full_year: "year < 0 \<or> 99 < year \<Longrightarrow> jsYear year = year"
  by (auto simp: jsYear_def)

subsection \<open>Two example periods\<close>

lemma ejemplo_enero_2025:
  "calcularFechasPagoPila (newDate 2025 0 1 + 45000000) (NitString ''12345600'')
       (newDate 2025 0 1) (newDate 2025 0 31)
     = [\<lparr>id' = 1, fecha = ''03/01/2025'', estado = Success, mesTexto = ''enero de 2025''\<rparr>]"
  by code_simp

lemma parse_ejemplo: "parseDate ''03/01/2025'' = Some (newDate 2025 0 3)"
  by code_simp

lemma indices_siglo:
  "indiceMes (MakeDate (MakeDay 99 11 1) 0) = 1199 \<and> indiceMes (newDate 1999 11 31) = 23999"
  by code_simp

lemma pagos_siglo:
  "pagoDelMes (MakeDate (MakeDay 99 11 1) 0) (newDate 1999 11 31) 2 99 11 = Some 944092800000 \<and>
   pagoDelMes (MakeDate (MakeDay 99 11 1) 0) (newDate 1999 11 31) 2 100 0 = Some (- 59011113600000)"
  by code_simp

lemma dias_siglo: "getDiasHabilesPago (NitString ''12345600'') = 2"
  by code_simp

lemma periodo_siglo:
  "getFullYear (MakeDate (MakeDay 99 11 1) 0) = 99 \<and> MakeDate (MakeDay 99 11 1) 0 < newDate 1999 11 31"
  by code_simp


section \<open>Properties of the specification\<close>

text \<open>
  C1, at the year 2025.  The list has nineteen entries, not eighteen (the source pushes
  Easter Sunday in addition to the eighteen official holidays), and San Pedro y San Pablo
  and Sagrado Corazon both fall on 30 June 2025, so the dates are neither strictly
  ascending nor free of duplicates.
\<close>

theorem holidays_2025_counterexample:
  "length (getColombianHolidays 2025) \<noteq> 18 \<and>
   \<not> sorted_wrt (<) (map date (getColombianHolidays 2025)) \<and>
   \<not> distinct (map date (getColombianHolidays 2025))"
proof -
  have "\<not> sorted_wrt (<) (map date (getColombianHolidays 2025))"
    using holidays_2025_dup strict_sorted_iff [of "map date (getColombianHolidays 2025)"] by blast
  then show ?thesis
    using holidays_2025_dup by (simp add: length_getColombianHolidays)
qed

text \<open>
  C1, as amended.  For every year \<open>getColombianHolidays\<close> returns exactly nineteen entries,
  in ascending (not necessarily strictly ascending) order of date.
\<close>

theorem holidays_count_and_order:
  "length (getColombianHolidays year) = 19 \<and>
   sorted (map date (getColombianHolidays year))"
  by (simp add: getColombianHolidays_def length_holidaysPushed)


text \<open>
  C5.  The Easter computation gives 31 March 2024 and 20 April 2025, and in every year
  the entry named Jueves Santo lies exactly three days, and the one named Viernes Santo
  exactly two days, before the computed Easter Sunday, which is itself the entry
  Domingo de Pascua.
\<close>

theorem easter_reference_and_holy_week:
  "calculateEaster 2024 = newDate 2024 2 31 \<and>
   calculateEaster 2025 = newDate 2025 3 20 \<and>
   map date (filter (\<lambda>h. name h = ''Jueves Santo'') (getColombianHolidays year))
     = [calculateEaster year - 3 * msPerDay] \<and>
   map date (filter (\<lambda>h. name h = ''Viernes Santo'') (getColombianHolidays year))
     = [calculateEaster year - 2 * msPerDay] \<and>
   map date (filter (\<lambda>h. name h = ''Domingo de Pascua'') (getColombianHolidays year))
     = [calculateEaster year]"
proof -
  have e24: "calculateEaster 2024 = newDate 2024 2 31" by code_simp
  have e25: "calculateEaster 2025 = newDate 2025 3 20" by code_simp
  have thu: "setDate e (getDate e - 3) = e - 3 * msPerDay" for e
    using setDate_getDate [of e "- 3"] by simp
  have fri: "setDate e (getDate e - 2) = e - 2 * msPerDay" for e
    using setDate_getDate [of e "- 2"] by simp
  have j: "map date (filter (\<lambda>h. name h = ''Jueves Santo'') (getColombianHolidays year))
     = [calculateEaster year - 3 * msPerDay]"
    unfolding filter_getColombianHolidays by (simp add: holidaysPushed_def Let_def thu)
  have v: "map date (filter (\<lambda>h. name h = ''Viernes Santo'') (getColombianHolidays year))
     = [calculateEaster year - 2 * msPerDay]"
    unfolding filter_getColombianHolidays by (simp add: holidaysPushed_def Let_def fri)
  have p: "map date (filter (\<lambda>h. name h = ''Domingo de Pascua'') (getColombianHolidays year))
     = [calculateEaster year]"
    unfolding filter_getColombianHolidays by (simp add: holidaysPushed_def Let_def)
  from e24 e25 j v p show ?thesis by simp
qed


text \<open>
  C6.  The Emiliani shift returns a Monday unchanged, moves a Sunday forward by one day
  and any other weekday by (8 - weekday) days; the weekday of the result is Monday in
  every case.
\<close>

theorem moveToMonday_emiliani:
  "(getDay d = 1 \<longrightarrow> moveToMonday d = d) \<and>
   (getDay d = 0 \<longrightarrow> moveToMonday d = d + 1 * msPerDay) \<and>
   (getDay d \<noteq> 0 \<and> getDay d \<noteq> 1 \<longrightarrow> moveToMonday d = d + (8 - getDay d) * msPerDay) \<and>
   getDay (moveToMonday d) = 1"
  using getDay_moveToMonday [of d] by (simp add: moveToMonday_shift)

text \<open>C6 at a Monday, a Sunday and a Wednesday of January 2025.\<close>

theorem moveToMonday_emiliani_witness:
  "getDay (newDate 2025 0 6) = 1 \<and> moveToMonday (newDate 2025 0 6) = newDate 2025 0 6 \<and>
   getDay (newDate 2025 0 5) = 0 \<and> moveToMonday (newDate 2025 0 5) = newDate 2025 0 5 + 1 * msPerDay \<and>
   getDay (newDate 2025 0 1) = 3 \<and> moveToMonday (newDate 2025 0 1) = newDate 2025 0 1 + 5 * msPerDay \<and>
   getDay (moveToMonday (newDate 2025 0 1)) = 1"
proof -
  have mon: "getDay (newDate 2025 0 6) = 1" by code_simp
  have sun: "getDay (newDate 2025 0 5) = 0" by code_simp
  have wed: "getDay (newDate 2025 0 1) = 3" by code_simp
  have a: "moveToMonday (newDate 2025 0 6) = newDate 2025 0 6"
    using moveToMonday_emiliani [of "newDate 2025 0 6"] mon by simp
  have b: "moveToMonday (newDate 2025 0 5) = newDate 2025 0 5 + 1 * msPerDay"
    using moveToMonday_emiliani [of "newDate 2025 0 5"] sun by simp
  have c: "moveToMonday (newDate 2025 0 1) = newDate 2025 0 1 + 5 * msPerDay"
    using moveToMonday_emiliani [of "newDate 2025 0 1"] wed by simp
  have d: "getDay (moveToMonday (newDate 2025 0 1)) = 1"
    using moveToMonday_emiliani [of "newDate 2025 0 1"] by blast
  from mon sun wed a b c d show ?thesis by blast
qed


text \<open>
  C8.  The lookup never fails: the three reference NITs give 9, 2 and 2 business days
  (their keys are 56, 00 and 01), a key that is not in the table gives the default 10,
  and a key that is in the table gives the value of an entry with that key.
\<close>

theorem getDiasHabilesPago_total:
  "getDiasHabilesPago (NitString ''900123456'') = 9 \<and>
   getDiasHabilesPago (NitString ''12345600'') = 2 \<and>
   getDiasHabilesPago (NitString ''1'') = 2 \<and>
   ultimosDigitos (NitString ''900123456'') = ''56'' \<and>
   ultimosDigitos (NitString ''12345600'') = ''00'' \<and>
   ultimosDigitos (NitString ''1'') = ''01'' \<and>
   (ultimosDigitos nit \<notin> set (map DIGITOS_NIT LIMITE_SEG_SOCIAL) \<longrightarrow> getDiasHabilesPago nit = 10) \<and>
   (\<forall>item \<in> set LIMITE_SEG_SOCIAL. DIGITOS_NIT item = ultimosDigitos nit \<longrightarrow>
      (\<exists>item' \<in> set LIMITE_SEG_SOCIAL. DIGITOS_NIT item' = ultimosDigitos nit \<and> getDiasHabilesPago nit = DIAS_HABILES item'))"
proof -
  have a: "getDiasHabilesPago (NitString ''900123456'') = 9" by code_simp
  have b: "getDiasHabilesPago (NitString ''12345600'') = 2" by code_simp
  have c: "getDiasHabilesPago (NitString ''1'') = 2" by code_simp
  have d: "ultimosDigitos (NitString ''900123456'') = ''56''" by code_simp
  have e: "ultimosDigitos (NitString ''12345600'') = ''00''" by code_simp
  have f: "ultimosDigitos (NitString ''1'') = ''01''" by code_simp
  have g: "ultimosDigitos nit \<notin> set (map DIGITOS_NIT LIMITE_SEG_SOCIAL) \<longrightarrow> getDiasHabilesPago nit = 10"
  proof
    assume "ultimosDigitos nit \<notin> set (map DIGITOS_NIT LIMITE_SEG_SOCIAL)"
    then have "find (\<lambda>item. DIGITOS_NIT item = ultimosDigitos nit) LIMITE_SEG_SOCIAL = None"
      by (force simp: find_None_iff)
    then show "getDiasHabilesPago nit = 10" by (simp add: getDiasHabilesPago_def)
  qed
  have h: "\<forall>item \<in> set LIMITE_SEG_SOCIAL. DIGITOS_NIT item = ultimosDigitos nit \<longrightarrow>
      (\<exists>item' \<in> set LIMITE_SEG_SOCIAL. DIGITOS_NIT item' = ultimosDigitos nit \<and> getDiasHabilesPago nit = DIAS_HABILES item')"
  proof (intro ballI impI)
    fix item assume "item \<in> set LIMITE_SEG_SOCIAL" "DIGITOS_NIT item = ultimosDigitos nit"
    then obtain l where l: "find (\<lambda>item. DIGITOS_NIT item = ultimosDigitos nit) LIMITE_SEG_SOCIAL = Some l"
      by (cases "find (\<lambda>item. DIGITOS_NIT item = ultimosDigitos nit) LIMITE_SEG_SOCIAL") (auto simp: find_None_iff)
    then have "l \<in> set LIMITE_SEG_SOCIAL \<and> DIGITOS_NIT l = ultimosDigitos nit"
      by (auto simp: find_Some_iff)
    with l show "\<exists>item' \<in> set LIMITE_SEG_SOCIAL. DIGITOS_NIT item' = ultimosDigitos nit \<and> getDiasHabilesPago nit = DIAS_HABILES item'"
      by (auto simp: getDiasHabilesPago_def)
  qed
  from a b c d e f g h show ?thesis by blast
qed


text \<open>C8 at a NIT whose key is not in the table.\<close>

theorem getDiasHabilesPago_total_witness:
  "ultimosDigitos (NitString ''ab'') \<notin> set (map DIGITOS_NIT LIMITE_SEG_SOCIAL) \<and>
   getDiasHabilesPago (NitString ''ab'') = 10"
proof -
  have k: "ultimosDigitos (NitString ''ab'') \<notin> set (map DIGITOS_NIT LIMITE_SEG_SOCIAL)"
    by code_simp
  with getDiasHabilesPago_total [of "NitString ''ab''"] show ?thesis by blast
qed


text \<open>
  C4.  The key is made of the last two characters of the text of the NIT, whatever they
  are.  For the NIT 900123456-7, which \<open>validarNIT\<close> accepts because its digits alone are
  counted, the key is \<open>-7\<close> and the lookup falls back to 10 days, while the digits alone
  (9001234567) give the key 67 and 11 days.
\<close>

theorem nit_with_check_digit:
  "validarNIT (NitString ''900123456-7'') \<and>
   filter isDigit (String (NitString ''900123456-7'')) = ''9001234567'' \<and>
   ultimosDigitos (NitString ''900123456-7'') = ''-7'' \<and>
   getDiasHabilesPago (NitString ''900123456-7'') = 10 \<and>
   getDiasHabilesPago (NitString ''9001234567'') = 11"
  by code_simp


text \<open>
  C7, as amended.  For a year below 0 or above 99 and n at least 1,
  \<open>getNthBusinessDayOfMonth\<close> returns nothing exactly when the calendar month has fewer
  than n business days.  Otherwise it returns the day, among the days 1 to the last of
  that month taken in order, at which the running count of business days first reaches
  n; the year and the month of that day are those of the arguments (a month outside 0 to
  11 being carried into the year).
\<close>

theorem getNthBusinessDayOfMonth_running_count:
  assumes "1 \<le> n" and "year < 0 \<or> 99 < year"
  shows "(getNthBusinessDayOfMonth year month n = None
            \<longleftrightarrow> int (length (filter isBusinessDay (calendarDays year month))) < n) \<and>
         (\<forall>d. getNthBusinessDayOfMonth year month n = Some d \<longrightarrow>
            (\<exists>i<length (calendarDays year month).
               d = calendarDays year month ! i \<and> isBusinessDay d \<and>
               int (length (filter isBusinessDay (take (Suc i) (calendarDays year month)))) = n \<and>
               (\<forall>j<i. int (length (filter isBusinessDay (take (Suc j) (calendarDays year month)))) < n)) \<and>
            getFullYear d = year + month div 12 \<and>
            getMonth d = month mod 12)"
proof (intro conjI allI impI)
  note cd = daysOfMonth_calendarDays [OF assms(2), of month, symmetric]
  show "getNthBusinessDayOfMonth year month n = None
            \<longleftrightarrow> int (length (filter isBusinessDay (calendarDays year month))) < n"
    unfolding cd using assms(1) by (simp add: getNthBusinessDayOfMonth_days)
next
  fix d assume some: "getNthBusinessDayOfMonth year month n = Some d"
  note cd = daysOfMonth_calendarDays [OF assms(2), of month, symmetric]
  let ?ds = "daysOfMonth year month"
  let ?bs = "filter isBusinessDay ?ds"
  from some have n: "n \<le> int (length ?bs)" and d: "d = ?bs ! nat (n - 1)"
    by (simp_all add: getNthBusinessDayOfMonth_days split: if_splits)
  have k: "nat (n - 1) < length ?bs" using assms(1) n by simp
  from nth_filter_running [OF k] obtain i where i: "i < length ?ds" "?ds ! i = ?bs ! nat (n - 1)"
      "isBusinessDay (?ds ! i)" "length (filter isBusinessDay (take (Suc i) ?ds)) = Suc (nat (n - 1))"
      "\<forall>j<i. length (filter isBusinessDay (take (Suc j) ?ds)) \<le> nat (n - 1)"
    by blast
  have "int (length (filter isBusinessDay (take (Suc i) ?ds))) = n"
    using i(4) assms(1) by simp
  moreover have "\<forall>j<i. int (length (filter isBusinessDay (take (Suc j) ?ds))) < n"
    using i(5) assms(1) by auto
  ultimately have "\<exists>i<length ?ds. d = ?ds ! i \<and> isBusinessDay d \<and>
               int (length (filter isBusinessDay (take (Suc i) ?ds))) = n \<and>
               (\<forall>j<i. int (length (filter isBusinessDay (take (Suc j) ?ds))) < n)"
    using i(1,2,3) d by (intro exI [of _ i]) simp
  then show "\<exists>i<length (calendarDays year month).
               d = calendarDays year month ! i \<and> isBusinessDay d \<and>
               int (length (filter isBusinessDay (take (Suc i) (calendarDays year month)))) = n \<and>
               (\<forall>j<i. int (length (filter isBusinessDay (take (Suc j) (calendarDays year month)))) < n)"
    unfolding cd .
  have mem: "d \<in> set ?ds"
    using getNthBusinessDayOfMonth_in_month [OF some] by simp
  show "getFullYear d = year + month div 12"
    using in_daysOfMonth [OF mem] jsYear_full_year [OF assms(2)] by simp
  show "getMonth d = month mod 12"
    using in_daysOfMonth [OF mem] by simp
qed

text \<open>C7 for the second business day of January 2025, which is 3 January.\<close>

theorem getNthBusinessDayOfMonth_running_count_witness:
  "(1::int) \<le> 2 \<and> (99::int) < 2025 \<and>
   getNthBusinessDayOfMonth 2025 0 2 = Some (newDate 2025 0 3) \<and>
   \<not> int (length (filter isBusinessDay (calendarDays 2025 0))) < 2 \<and>
   getFullYear (newDate 2025 0 3) = 2025 + 0 div 12 \<and>
   getMonth (newDate 2025 0 3) = 0 mod 12"
proof -
  have a: "getNthBusinessDayOfMonth 2025 0 2 = Some (newDate 2025 0 3)" by code_simp
  have l2: "(1::int) \<le> 2" by simp
  have y: "(2025::int) < 0 \<or> 99 < (2025::int)" by simp
  note t2 = getNthBusinessDayOfMonth_running_count [OF l2 y, of 0]
  have c: "\<not> int (length (filter isBusinessDay (calendarDays 2025 0))) < 2"
    using t2 a by simp
  have d: "getFullYear (newDate 2025 0 3) = 2025 + 0 div 12"
    using t2 [THEN conjunct2] a by blast
  have e: "getMonth (newDate 2025 0 3) = 0 mod 12"
    using t2 [THEN conjunct2] a by blast
  from a c d e show ?thesis by simp
qed

text \<open>
  C7, for the year 99.  The first two days of December of the year 99 are business days, so
  the running count reaches 2 on 2 December 99; the function builds its dates with the
  Date constructor, which reads the year 99 as 1999, and returns 2 December 1999.
\<close>

theorem getNthBusinessDayOfMonth_anio_99:
  "isBusinessDay (MakeDate (MakeDay 99 11 1) 0) \<and>
   isBusinessDay (MakeDate (MakeDay 99 11 2) 0) \<and>
   getFullYear (MakeDate (MakeDay 99 11 2) 0) = 99 \<and>
   getMonth (MakeDate (MakeDay 99 11 2) 0) = 11 \<and>
   getNthBusinessDayOfMonth 99 11 2 = Some (newDate 1999 11 2) \<and>
   getFullYear (newDate 1999 11 2) = 1999 \<and>
   newDate 1999 11 2 \<noteq> MakeDate (MakeDay 99 11 2) 0"
proof -
  have a: "isBusinessDay (MakeDate (MakeDay 99 11 1) 0)" by code_simp
  have b: "isBusinessDay (MakeDate (MakeDay 99 11 2) 0)" by code_simp
  have c: "getFullYear (MakeDate (MakeDay 99 11 2) 0) = 99 \<and> getMonth (MakeDate (MakeDay 99 11 2) 0) = 11"
    by code_simp
  have d: "getNthBusinessDayOfMonth 99 11 2 = Some (newDate 1999 11 2)" by code_simp
  have e: "getFullYear (newDate 1999 11 2) = 1999 \<and> newDate 1999 11 2 \<noteq> MakeDate (MakeDay 99 11 2) 0"
    by code_simp
  from a b c d e show ?thesis by blast
qed

text \<open>
  C9, as amended.  \<open>countBusinessDays\<close> counts the business days among the start date and the days
  that follow it up to the end date.  For two dates whose times of day are in order (in
  particular two calendar dates, both at midnight) this is the number of business days
  of the calendar days from the start to the end, inclusive.  It is 0 when the start is
  after the end, and for a single day it is 1 or 0 as the day is a business day or not.
\<close>

theorem countBusinessDays_closed_interval:
  "countBusinessDays startDate endDate
     = int (card {k::nat. startDate + int k * msPerDay \<le> endDate
                          \<and> isBusinessDay (startDate + int k * msPerDay)}) \<and>
   (TimeWithinDay startDate \<le> TimeWithinDay endDate \<longrightarrow>
      countBusinessDays startDate endDate
        = int (card {D. Day startDate \<le> D \<and> D \<le> Day endDate \<and> isBusinessDay (MakeDate D 0)})) \<and>
   (endDate < startDate \<longrightarrow> countBusinessDays startDate endDate = 0) \<and>
   countBusinessDays d d = (if isBusinessDay d then 1 else 0)"
  using countBusinessDays_card [of startDate endDate] countBusinessDays_calendar [of startDate endDate]
  by (simp add: countBusinessDays_scan scanDays_empty scanDays_single)


text \<open>C9 for days of January 2025 (6 January is a holiday, 7 January a business day).\<close>

theorem countBusinessDays_closed_interval_witness:
  "newDate 2025 0 5 < newDate 2025 0 6 \<and>
   countBusinessDays (newDate 2025 0 6) (newDate 2025 0 5) = 0 \<and>
   TimeWithinDay (newDate 2025 0 6) \<le> TimeWithinDay (newDate 2025 0 7) \<and>
   int (card {D. Day (newDate 2025 0 6) \<le> D \<and> D \<le> Day (newDate 2025 0 7)
                 \<and> isBusinessDay (MakeDate D 0)}) = 1 \<and>
   countBusinessDays (newDate 2025 0 7) (newDate 2025 0 7) = 1"
proof -
  have lt: "newDate 2025 0 5 < newDate 2025 0 6" by code_simp
  have tw: "TimeWithinDay (newDate 2025 0 6) \<le> TimeWithinDay (newDate 2025 0 7)" by code_simp
  have c: "countBusinessDays (newDate 2025 0 6) (newDate 2025 0 7) = 1" by code_simp
  have b: "isBusinessDay (newDate 2025 0 7)" by code_simp
  have z: "countBusinessDays (newDate 2025 0 6) (newDate 2025 0 5) = 0"
    using countBusinessDays_closed_interval [of "newDate 2025 0 6" "newDate 2025 0 5"] lt by blast
  have k: "int (card {D. Day (newDate 2025 0 6) \<le> D \<and> D \<le> Day (newDate 2025 0 7)
                 \<and> isBusinessDay (MakeDate D 0)}) = 1"
    using countBusinessDays_closed_interval [of "newDate 2025 0 6" "newDate 2025 0 7"] tw c by simp
  have "countBusinessDays (newDate 2025 0 7) (newDate 2025 0 7)
          = (if isBusinessDay (newDate 2025 0 7) then 1 else 0)"
    using countBusinessDays_closed_interval [of 0 0 "newDate 2025 0 7"] by blast
  with b have o: "countBusinessDays (newDate 2025 0 7) (newDate 2025 0 7) = 1"
    by simp
  from lt z tw k o show ?thesis by blast
qed

text \<open>
  C9, for a start at noon.  From 7 January 2025 at 12:00 to 8 January 2025 at 00:00 the
  loop visits 7 January only, because one day after the start is already past the end:
  the result is 1, although both days of the closed interval are business days.
\<close>

theorem countBusinessDays_mediodia:
  "newDate 2025 0 7 + 43200000 \<le> newDate 2025 0 8 \<and>
   getDate (newDate 2025 0 7 + 43200000) = 7 \<and> getDate (newDate 2025 0 8) = 8 \<and>
   isBusinessDay (newDate 2025 0 7 + 43200000) \<and>
   isBusinessDay (newDate 2025 0 8) \<and>
   countBusinessDays (newDate 2025 0 7 + 43200000) (newDate 2025 0 8) = 1"
proof -
  have a: "newDate 2025 0 7 + 43200000 \<le> newDate 2025 0 8 \<and>
           getDate (newDate 2025 0 7 + 43200000) = 7 \<and> getDate (newDate 2025 0 8) = 8"
    by code_simp
  have b: "isBusinessDay (newDate 2025 0 7 + 43200000)" by code_simp
  have c: "isBusinessDay (newDate 2025 0 8)" by code_simp
  have d: "countBusinessDays (newDate 2025 0 7 + 43200000) (newDate 2025 0 8) = 1" by code_simp
  from a b c d show ?thesis by blast
qed

text \<open>
  C10.  \<open>getNthBusinessDayOfMonth\<close> is optional indexing into the strictly ascending list
  \<open>getBusinessDaysOfMonth\<close>: element n - 1 when n is between 1 and the length, and
  nothing for every other n, in particular for n below 1.
\<close>

theorem getNthBusinessDayOfMonth_indexes_getBusinessDaysOfMonth:
  "getNthBusinessDayOfMonth year month n =
     (if 1 \<le> n \<and> n \<le> int (length (getBusinessDaysOfMonth year month))
      then Some (getBusinessDaysOfMonth year month ! nat (n - 1))
      else None) \<and>
   sorted_wrt (<) (getBusinessDaysOfMonth year month)"
  by (simp add: getNthBusinessDayOfMonth_scan getBusinessDaysOfMonth_scan Let_def
      sorted_wrt_filter sorted_scanDays)

text \<open>
  C2.  In the list that \<open>calcularFechasPagoPila\<close> returns, every entry's text reads back
  as a date, and the status of each entry is determined as follows, where today is the
  clock reading set to midnight: the first entry whose date is not before today is
  \<open>Success\<close>; every other entry has its provisional status, \<open>Warning\<close> when its date is
  today or at most ten days after today, and \<open>Normal\<close> otherwise (in particular for every
  date before today).  At most one entry is \<open>Success\<close>.
\<close>

theorem primera_fecha_futura_success:
  "(\<forall>e \<in> set (calcularFechasPagoPila now nit inicio fin). parseDate (fecha e) \<noteq> None) \<and>
   (\<forall>j < length (calcularFechasPagoPila now nit inicio fin).
      estado (calcularFechasPagoPila now nit inicio fin ! j)
        = (if setHours0 now \<le> fechaDe (calcularFechasPagoPila now nit inicio fin ! j)
              \<and> (\<forall>k<j. fechaDe (calcularFechasPagoPila now nit inicio fin ! k) < setHours0 now)
           then Success
           else if setHours0 now \<le> fechaDe (calcularFechasPagoPila now nit inicio fin ! j)
                   \<and> fechaDe (calcularFechasPagoPila now nit inicio fin ! j)
                       \<le> setHours0 now + 10 * msPerDay
           then Warning
           else Normal)) \<and>
   length (filter (\<lambda>e. estado e = Success) (calcularFechasPagoPila now nit inicio fin)) \<le> 1"
proof -
  define dias where "dias = getDiasHabilesPago nit"
  define r where "r = calcularFechasConDiasHabiles now inicio fin dias"
  define ds where "ds = pagosDelPeriodo inicio fin dias (indiceMes inicio) (indiceMes fin)"
  have rr: "calcularFechasPagoPila now nit inicio fin = r"
    by (simp add: pila_dias r_def dias_def)
  have len: "length r = length ds"
    by (simp add: r_def ds_def result_length)
  note nth = result_nth [OF ds_def r_def]
  have fd: "fechaDe (r ! j) = ds ! j" if "j < length ds" for j
    using nth(1) [OF that] by (simp add: fechaDe_def)
  have est: "estado (r ! j)
        = (if setHours0 now \<le> fechaDe (r ! j) \<and> (\<forall>k<j. fechaDe (r ! k) < setHours0 now)
           then Success
           else if setHours0 now \<le> fechaDe (r ! j) \<and> fechaDe (r ! j) \<le> setHours0 now + 10 * msPerDay
           then Warning
           else Normal)" if j: "j < length r" for j
  proof -
    have "(\<forall>k<j. fechaDe (r ! k) < setHours0 now) \<longleftrightarrow> (\<forall>k<j. ds ! k < setHours0 now)"
      using j len fd by auto
    moreover have jj: "j < length ds" using j len by simp
    ultimately show ?thesis
      unfolding fd [OF jj] using nth(3) [OF jj] by (simp only:)
  qed
  have a: "\<forall>e \<in> set r. parseDate (fecha e) \<noteq> None"
  proof
    fix e assume "e \<in> set r"
    then obtain j where "j < length r" "e = r ! j" by (auto simp: in_set_conv_nth)
    then show "parseDate (fecha e) \<noteq> None"
      using nth(1) [of j] len by simp
  qed
  have c: "length (filter (\<lambda>e. estado e = Success) r) \<le> 1"
  proof (rule at_most_one)
    fix i j assume ij: "i < j" "j < length r" and si: "estado (r ! i) = Success" and sj: "estado (r ! j) = Success"
    have i: "i < length r" using ij by simp
    from si est [OF i] have "setHours0 now \<le> fechaDe (r ! i)"
      by (auto split: if_splits)
    moreover from sj est [OF ij(2)] have "\<forall>k<j. fechaDe (r ! k) < setHours0 now"
      by (auto split: if_splits)
    ultimately show False using ij(1) by (auto simp: not_le [symmetric])
  qed
  from a est c show ?thesis unfolding rr by blast
qed

text \<open>C2 for January 2025, seen on 1 January 2025 at 12:30: the single entry is \<open>Success\<close>.\<close>

theorem primera_fecha_futura_success_witness:
  "0 < length (calcularFechasPagoPila (newDate 2025 0 1 + 45000000) (NitString ''12345600'')
                 (newDate 2025 0 1) (newDate 2025 0 31)) \<and>
   setHours0 (newDate 2025 0 1 + 45000000)
     \<le> fechaDe (calcularFechasPagoPila (newDate 2025 0 1 + 45000000) (NitString ''12345600'')
                   (newDate 2025 0 1) (newDate 2025 0 31) ! 0) \<and>
   estado (calcularFechasPagoPila (newDate 2025 0 1 + 45000000) (NitString ''12345600'')
             (newDate 2025 0 1) (newDate 2025 0 31) ! 0) = Success"
proof -
  let ?r = "calcularFechasPagoPila (newDate 2025 0 1 + 45000000) (NitString ''12345600'')
              (newDate 2025 0 1) (newDate 2025 0 31)"
  have len: "0 < length ?r" by (simp add: ejemplo_enero_2025)
  have h: "setHours0 (newDate 2025 0 1 + 45000000) \<le> newDate 2025 0 3" by code_simp
  have fd: "setHours0 (newDate 2025 0 1 + 45000000) \<le> fechaDe (?r ! 0)"
    using h by (simp add: ejemplo_enero_2025 fechaDe_def parse_ejemplo)
  have "estado (?r ! 0) = Success"
    using primera_fecha_futura_success [of "newDate 2025 0 1 + 45000000" "NitString ''12345600''"
        "newDate 2025 0 1" "newDate 2025 0 31"] len fd
    by simp
  with len fd show ?thesis by blast
qed


text \<open>
  C3, as amended.  For every NIT and every period, each entry's date lies within the
  period (bounds included) and the identifiers are 1, 2, ... in order.  When the period
  starts in the year 100 or later, the dates are strictly ascending, and for every calendar
  month the entries dated in that month are: the N-th business day of the month, once, when
  the month lies between the start month and the end month and that day exists and lies
  within the period; and none otherwise.
\<close>

theorem fechas_en_periodo_ordenadas:
  "(\<forall>e \<in> set (calcularFechasPagoPila now nit inicio fin).
      parseDate (fecha e) \<noteq> None \<and> inicio \<le> fechaDe e \<and> fechaDe e \<le> fin) \<and>
   map id' (calcularFechasPagoPila now nit inicio fin)
     = map int [1..<Suc (length (calcularFechasPagoPila now nit inicio fin))] \<and>
   (99 < getFullYear inicio \<longrightarrow>
      sorted (map fechaDe (calcularFechasPagoPila now nit inicio fin)) \<and>
      distinct (map fechaDe (calcularFechasPagoPila now nit inicio fin)) \<and>
      (\<forall>anio mes. 0 \<le> mes \<and> mes \<le> 11 \<longrightarrow>
         map fechaDe (filter (\<lambda>e. getFullYear (fechaDe e) = anio \<and> getMonth (fechaDe e) = mes)
                        (calcularFechasPagoPila now nit inicio fin))
           = (if mesEnPeriodo inicio fin anio mes
              then (case getNthBusinessDayOfMonth anio mes (getDiasHabilesPago nit) of
                      None \<Rightarrow> []
                    | Some d \<Rightarrow> if inicio \<le> d \<and> d \<le> fin then [d] else [])
              else [])))"
proof -
  define dias where "dias = getDiasHabilesPago nit"
  define r where "r = calcularFechasConDiasHabiles now inicio fin dias"
  define ds where "ds = pagosDelPeriodo inicio fin dias (indiceMes inicio) (indiceMes fin)"
  define f where "f = (\<lambda>k. pagoDelMes inicio fin dias (k div 12) (k mod 12))"
  have rr: "calcularFechasPagoPila now nit inicio fin = r"
    by (simp add: pila_dias r_def dias_def)
  have len: "length r = length ds"
    by (simp add: r_def ds_def result_length)
  have fds: "map fechaDe r = ds"
    by (simp add: r_def ds_def result_fechas)
  have dsf: "ds = List.map_filter f [indiceMes inicio..indiceMes fin]"
    by (simp add: ds_def f_def pagosDelPeriodo_def)
  note nth = result_nth [OF ds_def r_def]
  have a: "\<forall>e \<in> set r. parseDate (fecha e) \<noteq> None \<and> inicio \<le> fechaDe e \<and> fechaDe e \<le> fin"
  proof
    fix e assume "e \<in> set r"
    then obtain j where j: "j < length r" "e = r ! j" by (auto simp: in_set_conv_nth)
    then have jj: "j < length ds" using len by simp
    have p: "parseDate (fecha e) = Some (ds ! j)" using nth(1) [OF jj] j by simp
    have "ds ! j \<in> set (pagosDelPeriodo inicio fin dias (indiceMes inicio) (indiceMes fin))"
      using jj by (simp add: ds_def)
    from pagos_props [OF this] p
    show "parseDate (fecha e) \<noteq> None \<and> inicio \<le> fechaDe e \<and> fechaDe e \<le> fin"
      by (simp add: fechaDe_def)
  qed
  have c: "map id' r = map int [1..<Suc (length r)]"
  proof (rule nth_equalityI)
    show "length (map id' r) = length (map int [1..<Suc (length r)])" by (simp del: upt_Suc)
  next
    fix j assume "j < length (map id' r)"
    then have j: "j < length r" by simp
    then have "id' (r ! j) = 1 + int j" using nth(2) [of j] len by simp
    moreover have "[1..<Suc (length r)] ! j = 1 + j" using j by (simp del: upt_Suc)
    ultimately show "map id' r ! j = map int [1..<Suc (length r)] ! j"
      using j by (simp del: upt_Suc)
  qed
  have bd: "99 < getFullYear inicio \<longrightarrow>
      sorted (map fechaDe r) \<and> distinct (map fechaDe r) \<and>
      (\<forall>anio mes. 0 \<le> mes \<and> mes \<le> 11 \<longrightarrow>
         map fechaDe (filter (\<lambda>e. getFullYear (fechaDe e) = anio \<and> getMonth (fechaDe e) = mes) r)
           = (if mesEnPeriodo inicio fin anio mes
              then (case getNthBusinessDayOfMonth anio mes dias of
                      None \<Rightarrow> []
                    | Some d \<Rightarrow> if inicio \<le> d \<and> d \<le> fin then [d] else [])
              else []))"
  proof (rule impI)
    assume y: "99 < getFullYear inicio"
    have lo: "1200 \<le> indiceMes inicio"
      using y getMonth_range [of inicio] by (simp add: indiceMes_def)
    have key: "indiceMes d = x" if "x \<in> set [indiceMes inicio..indiceMes fin]" "f x = Some d" for x d
      using that lo by (intro pago_indice [of inicio fin dias]) (simp_all add: f_def)
    have "sorted_wrt (\<lambda>a b. indiceMes a < indiceMes b) ds"
      unfolding dsf
      by (rule sorted_map_filter_key [of "[indiceMes inicio..indiceMes fin]" f indiceMes,
            OF sorted_wrt_upto key])
    then have "sorted_wrt (<) ds"
      by (rule sorted_wrt_mono_rel [rotated]) (simp add: month_index_mono)
    then have sd: "sorted ds \<and> distinct ds"
      by (simp add: strict_sorted_iff)
    have per: "map fechaDe (filter (\<lambda>e. getFullYear (fechaDe e) = anio \<and> getMonth (fechaDe e) = mes) r)
           = (if mesEnPeriodo inicio fin anio mes
              then (case getNthBusinessDayOfMonth anio mes dias of
                      None \<Rightarrow> []
                    | Some d \<Rightarrow> if inicio \<le> d \<and> d \<le> fin then [d] else [])
              else [])" if m: "0 \<le> mes" "mes \<le> 11" for anio mes
    proof -
      let ?k = "anio * 12 + mes"
      have e1: "map fechaDe (filter (\<lambda>e. getFullYear (fechaDe e) = anio \<and> getMonth (fechaDe e) = mes) r)
                  = filter (\<lambda>d. getFullYear d = anio \<and> getMonth d = mes) ds"
        unfolding fds [symmetric] filter_map by (simp add: comp_def)
      have e2: "(getFullYear d = anio \<and> getMonth d = mes) \<longleftrightarrow> indiceMes d = ?k" for d
      proof
        assume "getFullYear d = anio \<and> getMonth d = mes"
        then show "indiceMes d = ?k" by (simp add: indiceMes_def)
      next
        assume eq: "indiceMes d = ?k"
        have pd: "indiceMes d div 12 = getFullYear d" "indiceMes d mod 12 = getMonth d"
          using month_index_parts [of "getMonth d" "getFullYear d"] getMonth_range [of d]
          by (simp_all add: indiceMes_def)
        have pk: "?k div 12 = anio" "?k mod 12 = mes"
          using month_index_parts [OF m, of anio] by simp_all
        from pd pk show "getFullYear d = anio \<and> getMonth d = mes"
          unfolding eq by simp
      qed
      have e3: "filter (\<lambda>d. indiceMes d = ?k) ds
                  = (if ?k \<in> set [indiceMes inicio..indiceMes fin]
                     then (case f ?k of None \<Rightarrow> [] | Some y \<Rightarrow> [y]) else [])"
        unfolding dsf
        by (rule filter_map_filter_key [of "[indiceMes inicio..indiceMes fin]" f indiceMes,
              OF distinct_upto key])
      have e4: "f ?k = (case getNthBusinessDayOfMonth anio mes dias of
                      None \<Rightarrow> None
                    | Some d \<Rightarrow> if inicio \<le> d \<and> d \<le> fin then Some d else None)"
        using month_index_parts [OF m, of anio] by (simp add: f_def pagoDelMes_def)
      have e5: "?k \<in> set [indiceMes inicio..indiceMes fin] \<longleftrightarrow> mesEnPeriodo inicio fin anio mes"
        by (simp add: mesEnPeriodo_indice [OF m])
      have "map fechaDe (filter (\<lambda>e. getFullYear (fechaDe e) = anio \<and> getMonth (fechaDe e) = mes) r)
              = filter (\<lambda>d. getFullYear d = anio \<and> getMonth d = mes) ds"
        by (rule e1)
      also have "\<dots> = filter (\<lambda>d. indiceMes d = ?k) ds"
        by (simp only: e2)
      also have "\<dots> = (if mesEnPeriodo inicio fin anio mes
                          then (case f ?k of None \<Rightarrow> [] | Some y \<Rightarrow> [y]) else [])"
        by (simp only: e3 e5)
      also have "\<dots> = (if mesEnPeriodo inicio fin anio mes
              then (case getNthBusinessDayOfMonth anio mes dias of
                      None \<Rightarrow> []
                    | Some d \<Rightarrow> if inicio \<le> d \<and> d \<le> fin then [d] else [])
              else [])"
        unfolding e4 by (simp split: option.splits)
      finally show ?thesis .
    qed
    from sd have "sorted (map fechaDe r)" "distinct (map fechaDe r)"
      unfolding fds by simp_all
    moreover from per have "\<forall>anio mes. 0 \<le> mes \<and> mes \<le> 11 \<longrightarrow>
         map fechaDe (filter (\<lambda>e. getFullYear (fechaDe e) = anio \<and> getMonth (fechaDe e) = mes) r)
           = (if mesEnPeriodo inicio fin anio mes
              then (case getNthBusinessDayOfMonth anio mes dias of
                      None \<Rightarrow> []
                    | Some d \<Rightarrow> if inicio \<le> d \<and> d \<le> fin then [d] else [])
              else [])"
      by (intro allI impI) (erule conjE)
    ultimately show "sorted (map fechaDe r) \<and> distinct (map fechaDe r) \<and>
      (\<forall>anio mes. 0 \<le> mes \<and> mes \<le> 11 \<longrightarrow>
         map fechaDe (filter (\<lambda>e. getFullYear (fechaDe e) = anio \<and> getMonth (fechaDe e) = mes) r)
           = (if mesEnPeriodo inicio fin anio mes
              then (case getNthBusinessDayOfMonth anio mes dias of
                      None \<Rightarrow> []
                    | Some d \<Rightarrow> if inicio \<le> d \<and> d \<le> fin then [d] else [])
              else []))"
      by (intro conjI)
  qed
  show ?thesis
    unfolding rr dias_def [symmetric] by (intro conjI a c bd)
qed

text \<open>C3 for January 2025.\<close>

theorem fechas_en_periodo_ordenadas_witness:
  "99 < getFullYear (newDate 2025 0 1) \<and>
   map id' (calcularFechasPagoPila (newDate 2025 0 1 + 45000000) (NitString ''12345600'')
              (newDate 2025 0 1) (newDate 2025 0 31)) = [1] \<and>
   sorted (map fechaDe (calcularFechasPagoPila (newDate 2025 0 1 + 45000000) (NitString ''12345600'')
              (newDate 2025 0 1) (newDate 2025 0 31))) \<and>
   distinct (map fechaDe (calcularFechasPagoPila (newDate 2025 0 1 + 45000000) (NitString ''12345600'')
              (newDate 2025 0 1) (newDate 2025 0 31)))"
proof -
  let ?r = "calcularFechasPagoPila (newDate 2025 0 1 + 45000000) (NitString ''12345600'')
              (newDate 2025 0 1) (newDate 2025 0 31)"
  note t = fechas_en_periodo_ordenadas [of "newDate 2025 0 1 + 45000000" "NitString ''12345600''"
        "newDate 2025 0 1" "newDate 2025 0 31"]
  have y: "99 < getFullYear (newDate 2025 0 1)" by code_simp
  have len: "length ?r = 1" by (simp add: ejemplo_enero_2025)
  have ids: "map id' ?r = map int [1..<Suc (length ?r)]"
    by (rule t [THEN conjunct2, THEN conjunct1])
  have i: "map id' ?r = [1]" unfolding ids len by simp
  have s: "sorted (map fechaDe ?r)"
    by (rule t [THEN conjunct2, THEN conjunct2, THEN mp, OF y, THEN conjunct1])
  have p: "distinct (map fechaDe ?r)"
    by (rule t [THEN conjunct2, THEN conjunct2, THEN mp, OF y, THEN conjunct2, THEN conjunct1])
  from y i s p show ?thesis by blast
qed


text \<open>
  C3, for a period that starts in the year 99.  The Date constructor reads the year 99 as
  1999, so the first month of the period (December 99) yields 2 December 1999, and the
  second month (January 100) yields 5 January 100: the dates are not in ascending order.
\<close>

theorem fechas_desordenadas_anio_99:
  "getFullYear (MakeDate (MakeDay 99 11 1) 0) = 99 \<and>
   MakeDate (MakeDay 99 11 1) 0 < newDate 1999 11 31 \<and>
   \<not> sorted (map fechaDe (calcularFechasPagoPila (newDate 2025 0 1) (NitString ''12345600'')
                            (MakeDate (MakeDay 99 11 1) 0) (newDate 1999 11 31)))"
proof -
  let ?i = "MakeDate (MakeDay 99 11 1) 0" and ?f = "newDate 1999 11 31"
  define rest where "rest = [1201..23999::int]"
  have u1: "[1199..23999::int] = 1199 # [1199 + 1..23999]" by (rule upto_rec1) simp
  have u2: "[1200..23999::int] = 1200 # [1200 + 1..23999]" by (rule upto_rec1) simp
  have n: "(1199::int) + 1 = 1200" "(1200::int) + 1 = 1201" by simp_all
  have u: "[1199..23999::int] = 1199 # 1200 # rest"
    unfolding rest_def by (subst u1, subst n, subst u2, subst n) (rule refl)
  have d: "(1199::int) div 12 = 99" "(1199::int) mod 12 = 11" "(1200::int) div 12 = 100" "(1200::int) mod 12 = 0"
    by simp_all
  have "map fechaDe (calcularFechasPagoPila (newDate 2025 0 1) (NitString ''12345600'') ?i ?f)
          = pagosDelPeriodo ?i ?f 2 1199 23999"
    by (simp only: pila_dias dias_siglo result_fechas indices_siglo)
  also have "\<dots> = 944092800000 # (- 59011113600000)
                      # List.map_filter (\<lambda>k. pagoDelMes ?i ?f 2 (k div 12) (k mod 12)) rest"
    unfolding pagosDelPeriodo_def u using pagos_siglo by (simp add: d)
  finally have "\<not> sorted (map fechaDe (calcularFechasPagoPila (newDate 2025 0 1) (NitString ''12345600'') ?i ?f))"
    by simp
  then show ?thesis using periodo_siglo by blast
qed

end
